theory Spec2Isabelle
  imports Main "HOL-Library.Word"
begin

section \<open>The types of xrpSMEngine.h\<close>

text \<open>
  The engine of \<^verbatim>\<open>xrpSMEngine.c\<close> is embedded function by function. A C name with a
  leading underscore (\<^verbatim>\<open>_SmProcessEvent\<close>) is written with the prefix \<open>u_\<close>
  (\<open>u_SmProcessEvent\<close>); the public names are kept as they are.
\<close>

datatype eStateAction = ACT_GUARD | ACT_ENTER | ACT_EXIT | ACT_INTERNAL

type_synonym tStEventID = "16 word"

text \<open>\<^verbatim>\<open>typedef void * tStEventData\<close>: an address that the engine copies and never follows.\<close>

type_synonym tStEventData = nat

text \<open>
  \<^verbatim>\<open>tStateGuard\<close>: one entry of a state's next-state array. \<open>mStInfo\<close> is a pointer to a
  \<^verbatim>\<open>tStateInfo\<close>; pointers to state descriptors are the values of the type \<open>'st\<close>, and two
  pointers are equal when these values are.
\<close>

record 'st tStateGuard =
  mID :: tStEventID
  mStInfo :: 'st

record tStateEvent =
  mID :: tStEventID
  mData :: tStEventData

text \<open>
  \<^verbatim>\<open>tStateEntryPoint\<close>: \<^verbatim>\<open>void (*)(tStateEvent *pEvent, eStateAction eAction, BOOL *bGuardRespone)\<close>.
  An entry point is handed the event and the action, never the instance, so it is a function
  on the state \<open>'w\<close> of the application that owns the machine. The boolean is what it stores
  through \<open>bGuardRespone\<close>; the engine passes \<^verbatim>\<open>NULL\<close> and reads nothing back for every action
  but \<open>ACT_GUARD\<close>. The event is passed by value: an entry point that writes through
  \<open>pEvent\<close> is outside this model, as is one that reaches the instance through a global.
\<close>

type_synonym 'w tStateEntryPoint = "tStateEvent \<Rightarrow> eStateAction \<Rightarrow> 'w \<Rightarrow> bool \<times> 'w"

text \<open>
  \<^verbatim>\<open>tStateInfo\<close>. Each of the two arrays and its count (\<^verbatim>\<open>mNextStCount\<close> with
  \<^verbatim>\<open>mpNextStates\<close>, \<^verbatim>\<open>mDeferEvtIDCount\<close> with \<^verbatim>\<open>mpDeferEvtIDs\<close>) is one list, the count
  its length.
\<close>

record ('st, 'w) tStateInfo =
  mStateName :: string
  mEntry :: "'w tStateEntryPoint"
  mpNextStates :: "'st tStateGuard list"
  mpDeferEvtIDs :: "tStEventID list"

text \<open>\<^verbatim>\<open>tSmQueueEvt\<close>: four \<^verbatim>\<open>UInt16\<close> fields and the backing array \<^verbatim>\<open>mpQData\<close>.\<close>

record tSmQueueEvt =
  mQHead :: "16 word"
  mQTail :: "16 word"
  mQCount :: "16 word"
  mQSize :: "16 word"
  mpQData :: "tStateEvent list"

record 'st tSmInstance =
  mInstanceName :: string
  pCurrState :: 'st
  activeEvtQueue :: tSmQueueEvt
  deferredEvtQueue :: tSmQueueEvt
  bInitFinished :: bool

subsection \<open>Diagnostics\<close>

text \<open>
  The header defines \<^verbatim>\<open>RDK\<close>, so the \<^verbatim>\<open>XLOGD_*\<close> lines of the source are compiled in and
  the \<^verbatim>\<open>DbgLog\<close> lines are not. One constructor per format string, with its arguments.
\<close>

datatype log_level = LOG_DEBUG | LOG_INFO | LOG_WARN | LOG_ERROR | LOG_FATAL

datatype log_msg =
    Log_Init string string
  | Log_NoInit string tStEventID "16 word"
  | Log_Enqueue string tStEventID "16 word"
  | Log_DefQueue string tStEventID "16 word"
  | Log_SmDequeue tStEventID "16 word"
  | Log_DqDef string tStEventID "16 word"
  | Log_Internal string string tStEventID tStEventData
  | Log_Exit string string tStEventID tStEventData
  | Log_Enter string string tStEventID tStEventData
  | Log_Rejected string string tStEventID tStEventData
  | Log_Unused string tStEventID tStEventData
  | Log_State string string
  | Log_Consumed string tStEventID "16 word"
  | Log_EngineExit string "16 word" "16 word"

subsection \<open>The machine and what surrounds it\<close>

text \<open>
  Everything a call of the engine can read or write: the instance \<open>*pSM\<close>, the state of the
  application that the entry points work on, and the lines printed so far. \<open>calls\<close> is a
  history of the entry point invocations (which state, which action, which event), in
  order; no function reads it.
\<close>

record ('st, 'w) machine =
  sm :: "'st tSmInstance"
  app :: 'w
  calls :: "('st \<times> eStateAction \<times> tStateEvent) list"
  out :: "(log_level \<times> log_msg) list"

text \<open>The static state tables: the descriptor each state pointer points to.\<close>

type_synonym ('st, 'w) state_table = "'st \<Rightarrow> ('st, 'w) tStateInfo"

definition XLOGD_DEBUG :: "log_msg \<Rightarrow> ('st, 'w) machine \<Rightarrow> ('st, 'w) machine" where
  "XLOGD_DEBUG m s = s\<lparr>out := out s @ [(LOG_DEBUG, m)]\<rparr>"

definition XLOGD_INFO :: "log_msg \<Rightarrow> ('st, 'w) machine \<Rightarrow> ('st, 'w) machine" where
  "XLOGD_INFO m s = s\<lparr>out := out s @ [(LOG_INFO, m)]\<rparr>"

definition XLOGD_ERROR :: "log_msg \<Rightarrow> ('st, 'w) machine \<Rightarrow> ('st, 'w) machine" where
  "XLOGD_ERROR m s = s\<lparr>out := out s @ [(LOG_ERROR, m)]\<rparr>"

definition XLOGD_FATAL :: "log_msg \<Rightarrow> ('st, 'w) machine \<Rightarrow> ('st, 'w) machine" where
  "XLOGD_FATAL m s = s\<lparr>out := out s @ [(LOG_FATAL, m)]\<rparr>"

text \<open>\<open>INST_NAME\<close> and \<open>ST_NAME\<close> of the header.\<close>

definition INST_NAME :: "('st, 'w) machine \<Rightarrow> string" where
  "INST_NAME s = mInstanceName (sm s)"

definition ST_NAME :: "('st, 'w) state_table \<Rightarrow> ('st, 'w) machine \<Rightarrow> string" where
  "ST_NAME tbl s = mStateName (tbl (pCurrState (sm s)))"

section \<open>The functions of xrpSMEngine.c\<close>

subsection \<open>Initialisation and the current state\<close>

definition SmInit :: "('st, 'w) state_table \<Rightarrow> 'st \<Rightarrow> ('st, 'w) machine \<Rightarrow> ('st, 'w) machine" where
  "SmInit tbl pInitialStateInfo s =
     (let s1 = s\<lparr>sm := (sm s)\<lparr>pCurrState := pInitialStateInfo\<rparr>\<rparr>;
          s2 = XLOGD_INFO (Log_Init (INST_NAME s1) (ST_NAME tbl s1)) s1;
          a = (activeEvtQueue (sm s2))\<lparr>mQCount := 0, mQHead := 0, mQTail := 0\<rparr>;
          d = (deferredEvtQueue (sm s2))\<lparr>mQCount := 0, mQHead := 0, mQTail := 0\<rparr>
      in s2\<lparr>sm := (sm s2)\<lparr>activeEvtQueue := a, deferredEvtQueue := d, bInitFinished := True\<rparr>\<rparr>)"

definition SmInThisState :: "'st tSmInstance \<Rightarrow> 'st \<Rightarrow> bool" where
  "SmInThisState pSM pTestStateInfo = (pCurrState pSM = pTestStateInfo)"

definition SmSetThisState :: "'st tSmInstance \<Rightarrow> 'st \<Rightarrow> 'st tSmInstance" where
  "SmSetThisState pSM pNewStateInfo = pSM\<lparr>pCurrState := pNewStateInfo\<rparr>"

subsection \<open>The event queue\<close>

definition u_SmQFull :: "tSmQueueEvt \<Rightarrow> bool" where
  "u_SmQFull pEvQ = (mQCount pEvQ = mQSize pEvQ)"

definition u_SmQEmpty :: "tSmQueueEvt \<Rightarrow> bool" where
  "u_SmQEmpty pEvQ = (0 = mQCount pEvQ)"

text \<open>
  \<^verbatim>\<open>_SmEnqueueEvent\<close> returns nothing and prints nothing (its \<^verbatim>\<open>DbgLog\<close> line is commented
  out). The tail is moved first and the event stored where it then points. The store is
  \<^verbatim>\<open>mpQData[mQTail]\<close>: the C is undefined when that is outside the array, and the list
  update of the model is only meant where \<open>unat (mQTail q) < length (mpQData q)\<close>, which
  \<open>queue_inv\<close> below guarantees.
\<close>

definition u_SmEnqueueEvent :: "tSmQueueEvt \<Rightarrow> tStEventID \<Rightarrow> tStEventData \<Rightarrow> tSmQueueEvt" where
  "u_SmEnqueueEvent pEvQ evtID evtData =
     (if u_SmQFull pEvQ then pEvQ
      else
        let q1 = pEvQ\<lparr>mQTail := mQTail pEvQ + 1\<rparr>;
            q2 = q1\<lparr>mQCount := mQCount q1 + 1\<rparr>;
            q3 = (if mQTail q2 = mQSize q2 then q2\<lparr>mQTail := 0\<rparr> else q2)
        in q3\<lparr>mpQData := (mpQData q3)[unat (mQTail q3) := \<lparr>mID = evtID, mData = evtData\<rparr>]\<rparr>)"

text \<open>
  \<^verbatim>\<open>_SmDequeueEvent\<close>: \<open>None\<close> is the return value \<^verbatim>\<open>FALSE\<close> (and \<open>*pNewEvent\<close> untouched),
  \<open>Some e\<close> is \<^verbatim>\<open>TRUE\<close> with \<open>e\<close> copied out.
\<close>

definition u_SmDequeueEvent :: "tSmQueueEvt \<Rightarrow> tStateEvent option \<times> tSmQueueEvt" where
  "u_SmDequeueEvent pEvQ =
     (if u_SmQEmpty pEvQ then (None, pEvQ)
      else
        let q1 = pEvQ\<lparr>mQHead := mQHead pEvQ + 1\<rparr>;
            q2 = q1\<lparr>mQCount := mQCount q1 - 1\<rparr>;
            q3 = (if mQHead q2 = mQSize q2 then q2\<lparr>mQHead := 0\<rparr> else q2)
        in (Some (mpQData q3 ! unat (mQHead q3)), q3))"

definition SmEnqueueEvent ::
  "tStEventID \<Rightarrow> tStEventData \<Rightarrow> ('st, 'w) machine \<Rightarrow> ('st, 'w) machine" where
  "SmEnqueueEvent evtID evtData s =
     (if \<not> bInitFinished (sm s)
      then XLOGD_FATAL (Log_NoInit (INST_NAME s) evtID (mQCount (activeEvtQueue (sm s)))) s
      else
        let s1 = s\<lparr>sm := (sm s)\<lparr>activeEvtQueue :=
                   u_SmEnqueueEvent (activeEvtQueue (sm s)) evtID evtData\<rparr>\<rparr>
        in XLOGD_DEBUG (Log_Enqueue (INST_NAME s1) evtID (mQCount (activeEvtQueue (sm s1)))) s1)"

definition u_SmEnqueueDeferredEvent ::
  "tStEventID \<Rightarrow> tStEventData \<Rightarrow> ('st, 'w) machine \<Rightarrow> ('st, 'w) machine" where
  "u_SmEnqueueDeferredEvent evtID evtData s =
     (let s1 = s\<lparr>sm := (sm s)\<lparr>deferredEvtQueue :=
                u_SmEnqueueEvent (deferredEvtQueue (sm s)) evtID evtData\<rparr>\<rparr>
      in XLOGD_DEBUG (Log_DefQueue (INST_NAME s1) evtID (mQCount (deferredEvtQueue (sm s1)))) s1)"

definition u_SmDequeueActiveEvent ::
  "('st, 'w) machine \<Rightarrow> tStateEvent option \<times> ('st, 'w) machine" where
  "u_SmDequeueActiveEvent s =
     (case u_SmDequeueEvent (activeEvtQueue (sm s)) of
        (None, q) \<Rightarrow> (None, s\<lparr>sm := (sm s)\<lparr>activeEvtQueue := q\<rparr>\<rparr>)
      | (Some e, q) \<Rightarrow>
          (Some e, XLOGD_DEBUG (Log_SmDequeue (mID e) (mQCount q))
                     (s\<lparr>sm := (sm s)\<lparr>activeEvtQueue := q\<rparr>\<rparr>)))"

definition u_SmDequeueDeferredEvent ::
  "('st, 'w) machine \<Rightarrow> tStateEvent option \<times> ('st, 'w) machine" where
  "u_SmDequeueDeferredEvent s =
     (case u_SmDequeueEvent (deferredEvtQueue (sm s)) of
        (None, q) \<Rightarrow> (None, s\<lparr>sm := (sm s)\<lparr>deferredEvtQueue := q\<rparr>\<rparr>)
      | (Some e, q) \<Rightarrow>
          (Some e, XLOGD_DEBUG (Log_DqDef (INST_NAME s) (mID e) (mQCount q))
                     (s\<lparr>sm := (sm s)\<lparr>deferredEvtQueue := q\<rparr>\<rparr>)))"

subsection \<open>One event: the transition protocol\<close>

text \<open>
  A call through a state's \<open>mEntry\<close>: the entry point works on the application state and
  the call is entered in the history.
\<close>

definition call_entry ::
  "('st, 'w) state_table \<Rightarrow> 'st \<Rightarrow> tStateEvent \<Rightarrow> eStateAction \<Rightarrow> ('st, 'w) machine
     \<Rightarrow> bool \<times> ('st, 'w) machine" where
  "call_entry tbl st ev act s =
     (let (r, w) = mEntry (tbl st) ev act (app s)
      in (r, s\<lparr>app := w, calls := calls s @ [(st, act, ev)]\<rparr>))"

text \<open>
  The \<^verbatim>\<open>for\<close> loop of \<^verbatim>\<open>_SmProcessEvent\<close> over the next-state array of the state that is
  current when the function is entered, from the entry the loop has reached. The first
  component of the result is \<open>bEventUsed\<close>; the two \<^verbatim>\<open>break\<close>s are the two branches that
  do not recurse.
\<close>

fun scan_next_states ::
  "('st, 'w) state_table \<Rightarrow> tStateEvent \<Rightarrow> 'st tStateGuard list \<Rightarrow> ('st, 'w) machine
     \<Rightarrow> bool \<times> ('st, 'w) machine" where
  "scan_next_states tbl pNewEvent [] s = (False, s)"
| "scan_next_states tbl pNewEvent (g # gs) s =
     (if tStateGuard.mID g = mID pNewEvent then
        (let pNextStateInfo = mStInfo g in
         if pCurrState (sm s) = pNextStateInfo then
           (let s1 = XLOGD_DEBUG (Log_Internal (INST_NAME s) (ST_NAME tbl s)
                                    (mID pNewEvent) (mData pNewEvent)) s;
                (r, s2) = call_entry tbl pNextStateInfo pNewEvent ACT_INTERNAL s1
            in (True, s2))
         else
           (let (bStGuard, s1) = call_entry tbl pNextStateInfo pNewEvent ACT_GUARD s in
            if bStGuard then
              (let s2 = XLOGD_DEBUG (Log_Exit (INST_NAME s1) (ST_NAME tbl s1)
                                       (mID pNewEvent) (mData pNewEvent)) s1;
                   (r, s3) = call_entry tbl (pCurrState (sm s2)) pNewEvent ACT_EXIT s2;
                   s4 = s3\<lparr>sm := (sm s3)\<lparr>pCurrState := pNextStateInfo\<rparr>\<rparr>;
                   s5 = XLOGD_DEBUG (Log_Enter (INST_NAME s4) (ST_NAME tbl s4)
                                       (mID pNewEvent) (mData pNewEvent)) s4;
                   (r', s6) = call_entry tbl pNextStateInfo pNewEvent ACT_ENTER s5
               in (True, s6))
            else
              scan_next_states tbl pNewEvent gs
                (XLOGD_DEBUG (Log_Rejected (INST_NAME s1) (mStateName (tbl pNextStateInfo))
                                (mID pNewEvent) (mData pNewEvent)) s1)))
      else scan_next_states tbl pNewEvent gs s)"

definition u_SmProcessEvent ::
  "('st, 'w) state_table \<Rightarrow> tStateEvent \<Rightarrow> ('st, 'w) machine \<Rightarrow> bool \<times> ('st, 'w) machine" where
  "u_SmProcessEvent tbl pNewEvent s =
     scan_next_states tbl pNewEvent (mpNextStates (tbl (pCurrState (sm s)))) s"

subsection \<open>Deferral\<close>

text \<open>The loop of \<^verbatim>\<open>_SmDeferEvent\<close> that computes \<open>bCanDefer\<close>.\<close>

fun can_defer :: "tStEventID \<Rightarrow> tStEventID list \<Rightarrow> bool" where
  "can_defer evtID [] = False"
| "can_defer evtID (d # ds) = (if evtID = d then True else can_defer evtID ds)"

definition u_SmDeferEvent ::
  "('st, 'w) state_table \<Rightarrow> tStateEvent \<Rightarrow> ('st, 'w) machine \<Rightarrow> ('st, 'w) machine" where
  "u_SmDeferEvent tbl pNewEvent s =
     (if can_defer (mID pNewEvent) (mpDeferEvtIDs (tbl (pCurrState (sm s))))
      then u_SmEnqueueDeferredEvent (mID pNewEvent) (mData pNewEvent) s
      else
        XLOGD_DEBUG (Log_State (INST_NAME s) (ST_NAME tbl s))
          (XLOGD_ERROR (Log_Unused (INST_NAME s) (mID pNewEvent) (mData pNewEvent)) s))"

subsection \<open>What one event leaves alone\<close>

text \<open>
  Facts the termination proofs of the passes below rest on: printing and entry points do not
  touch the instance, and processing one event touches neither queue.
\<close>

lemma XLOGD_sm [simp]:
  "sm (XLOGD_DEBUG m s) = sm s" "sm (XLOGD_INFO m s) = sm s"
  "sm (XLOGD_ERROR m s) = sm s" "sm (XLOGD_FATAL m s) = sm s"
  by (simp_all add: XLOGD_DEBUG_def XLOGD_INFO_def XLOGD_ERROR_def XLOGD_FATAL_def)

lemma XLOGD_app [simp]:
  "app (XLOGD_DEBUG m s) = app s" "app (XLOGD_INFO m s) = app s"
  "app (XLOGD_ERROR m s) = app s" "app (XLOGD_FATAL m s) = app s"
  by (simp_all add: XLOGD_DEBUG_def XLOGD_INFO_def XLOGD_ERROR_def XLOGD_FATAL_def)

lemma XLOGD_calls [simp]:
  "calls (XLOGD_DEBUG m s) = calls s" "calls (XLOGD_INFO m s) = calls s"
  "calls (XLOGD_ERROR m s) = calls s" "calls (XLOGD_FATAL m s) = calls s"
  by (simp_all add: XLOGD_DEBUG_def XLOGD_INFO_def XLOGD_ERROR_def XLOGD_FATAL_def)

lemma XLOGD_out [simp]:
  "out (XLOGD_DEBUG m s) = out s @ [(LOG_DEBUG, m)]"
  "out (XLOGD_INFO m s) = out s @ [(LOG_INFO, m)]"
  "out (XLOGD_ERROR m s) = out s @ [(LOG_ERROR, m)]"
  "out (XLOGD_FATAL m s) = out s @ [(LOG_FATAL, m)]"
  by (simp_all add: XLOGD_DEBUG_def XLOGD_INFO_def XLOGD_ERROR_def XLOGD_FATAL_def)

lemma call_entry_sm: "call_entry tbl st ev act s = (r, s') \<Longrightarrow> sm s' = sm s"
  by (auto simp: call_entry_def split: prod.splits)

lemma scan_queues:
  "scan_next_states tbl ev gs s = (b, s') \<Longrightarrow>
     activeEvtQueue (sm s') = activeEvtQueue (sm s) \<and>
     deferredEvtQueue (sm s') = deferredEvtQueue (sm s) \<and>
     bInitFinished (sm s') = bInitFinished (sm s) \<and>
     mInstanceName (sm s') = mInstanceName (sm s)"
proof (induction gs arbitrary: s)
  case Nil
  then show ?case by simp
next
  case (Cons g gs)
  then show ?case
    by (auto simp: Let_def split: if_splits prod.splits dest!: call_entry_sm)
qed

lemma process_event_queues:
  "u_SmProcessEvent tbl ev s = (b, s') \<Longrightarrow>
     activeEvtQueue (sm s') = activeEvtQueue (sm s) \<and>
     deferredEvtQueue (sm s') = deferredEvtQueue (sm s)"
  unfolding u_SmProcessEvent_def by (drule scan_queues) simp

lemma defer_active [simp]:
  "activeEvtQueue (sm (u_SmDeferEvent tbl ev s)) = activeEvtQueue (sm s)"
  by (simp add: u_SmDeferEvent_def u_SmEnqueueDeferredEvent_def Let_def)

lemma dequeue_count:
  "u_SmDequeueEvent q = (Some e, q') \<Longrightarrow> unat (mQCount q') < unat (mQCount q)"
  by (auto simp: u_SmDequeueEvent_def u_SmQEmpty_def Let_def unat_minus_one unat_gt_0 split: if_splits)

lemma dequeue_active_count:
  "u_SmDequeueActiveEvent s = (Some e, s') \<Longrightarrow>
     unat (mQCount (activeEvtQueue (sm s'))) < unat (mQCount (activeEvtQueue (sm s)))"
  by (auto simp: u_SmDequeueActiveEvent_def split: prod.splits option.splits dest: dequeue_count)

subsection \<open>The active pass\<close>

text \<open>
  The \<^verbatim>\<open>do ... while\<close> of \<^verbatim>\<open>_SmProcessActiveEvents\<close>, with \<open>consumedEventCount\<close> as it
  stands when the iteration starts. It ends when the dequeue finds nothing. The counter is
  a C \<^verbatim>\<open>int\<close>; it counts dequeued events, of which a pass sees at most 65535.
\<close>

function u_SmProcessActiveEvents_loop ::
  "('st, 'w) state_table \<Rightarrow> int \<Rightarrow> ('st, 'w) machine \<Rightarrow> int \<times> ('st, 'w) machine" where
  "u_SmProcessActiveEvents_loop tbl consumedEventCount s =
     (case u_SmDequeueActiveEvent s of
        (None, s1) \<Rightarrow> (consumedEventCount, s1)
      | (Some newEvent, s1) \<Rightarrow>
          (case u_SmProcessEvent tbl newEvent s1 of
             (True, s2) \<Rightarrow>
               u_SmProcessActiveEvents_loop tbl (consumedEventCount + 1)
                 (XLOGD_DEBUG (Log_Consumed (INST_NAME s2) (mID newEvent)
                                 (mQCount (activeEvtQueue (sm s2)))) s2)
           | (False, s2) \<Rightarrow>
               u_SmProcessActiveEvents_loop tbl consumedEventCount
                 (u_SmDeferEvent tbl newEvent s2)))"
  by pat_completeness auto
termination
  apply (relation "measure (\<lambda>(tbl, c, s). unat (mQCount (activeEvtQueue (sm s))))")
  apply simp
  subgoal for tbl c s x1 s1 ev x s2
    using dequeue_active_count [of s ev s1] process_event_queues [of tbl ev s1 x s2] by simp
  subgoal for tbl c s x1 s1 ev x s2
    using dequeue_active_count [of s ev s1] process_event_queues [of tbl ev s1 x s2] by simp
  done


definition u_SmProcessActiveEvents ::
  "('st, 'w) state_table \<Rightarrow> ('st, 'w) machine \<Rightarrow> bool \<times> ('st, 'w) machine" where
  "u_SmProcessActiveEvents tbl s =
     (let (consumedEventCount, s') = u_SmProcessActiveEvents_loop tbl 0 s
      in (consumedEventCount \<noteq> 0, s'))"

subsection \<open>The deferred pass\<close>

text \<open>
  The \<^verbatim>\<open>do ... while\<close> of \<^verbatim>\<open>_SmProcessDeferredEvents\<close>. The result carries the final
  \<open>idx\<close>, the number of events the pass dequeued, next to \<open>consumedEventCount\<close>.
\<close>

function u_SmProcessDeferredEvents_loop ::
  "('st, 'w) state_table \<Rightarrow> int \<Rightarrow> int \<Rightarrow> int \<Rightarrow> ('st, 'w) machine
     \<Rightarrow> int \<times> int \<times> ('st, 'w) machine" where
  "u_SmProcessDeferredEvents_loop tbl maxLoopCount idx consumedEventCount s =
     (case u_SmDequeueDeferredEvent s of
        (None, s1) \<Rightarrow> (idx, consumedEventCount, s1)
      | (Some newEvent, s1) \<Rightarrow>
          (let (consumedEventCount', s3) =
                 (case u_SmProcessEvent tbl newEvent s1 of
                    (True, s2) \<Rightarrow> (consumedEventCount + 1, s2)
                  | (False, s2) \<Rightarrow> (consumedEventCount, u_SmDeferEvent tbl newEvent s2))
           in if idx + 1 < maxLoopCount
              then u_SmProcessDeferredEvents_loop tbl maxLoopCount (idx + 1) consumedEventCount' s3
              else (idx + 1, consumedEventCount', s3)))"
  by pat_completeness auto
termination
  by (relation "measure (\<lambda>(tbl, maxLoopCount, idx, c, s). nat (maxLoopCount - idx))") auto

definition u_SmProcessDeferredEvents ::
  "('st, 'w) state_table \<Rightarrow> ('st, 'w) machine \<Rightarrow> bool \<times> ('st, 'w) machine" where
  "u_SmProcessDeferredEvents tbl s =
     (let maxLoopCount = uint (mQCount (deferredEvtQueue (sm s)));
          (idx, consumedEventCount, s') = u_SmProcessDeferredEvents_loop tbl maxLoopCount 0 0 s
      in (consumedEventCount \<noteq> 0, s'))"

subsection \<open>The passes and the active queue\<close>

declare u_SmProcessActiveEvents_loop.simps [simp del]
declare u_SmProcessDeferredEvents_loop.simps [simp del]

lemma active_loop_None:
  "u_SmDequeueActiveEvent s = (None, s1) \<Longrightarrow> u_SmProcessActiveEvents_loop tbl c s = (c, s1)"
  by (subst u_SmProcessActiveEvents_loop.simps) simp

lemma active_loop_used:
  "u_SmDequeueActiveEvent s = (Some ev, s1) \<Longrightarrow> u_SmProcessEvent tbl ev s1 = (True, s2) \<Longrightarrow>
   u_SmProcessActiveEvents_loop tbl c s =
     u_SmProcessActiveEvents_loop tbl (c + 1)
       (XLOGD_DEBUG (Log_Consumed (INST_NAME s2) (mID ev) (mQCount (activeEvtQueue (sm s2)))) s2)"
  by (subst u_SmProcessActiveEvents_loop.simps) simp

lemma active_loop_unused:
  "u_SmDequeueActiveEvent s = (Some ev, s1) \<Longrightarrow> u_SmProcessEvent tbl ev s1 = (False, s2) \<Longrightarrow>
   u_SmProcessActiveEvents_loop tbl c s =
     u_SmProcessActiveEvents_loop tbl c (u_SmDeferEvent tbl ev s2)"
  by (subst u_SmProcessActiveEvents_loop.simps) simp

lemma dequeue_active_None:
  "u_SmDequeueActiveEvent s = (None, s1) \<Longrightarrow> s1 = s \<and> mQCount (activeEvtQueue (sm s)) = 0"
  by (auto simp: u_SmDequeueActiveEvent_def u_SmDequeueEvent_def u_SmQEmpty_def Let_def
      split: if_splits prod.splits option.splits)

lemma active_loop_drains:
  "u_SmProcessActiveEvents_loop tbl c s = (c', s') \<Longrightarrow>
     mQCount (activeEvtQueue (sm s')) = 0"
proof (induction tbl c s rule: u_SmProcessActiveEvents_loop.induct)
  case (1 tbl c s)
  obtain o1 s1 where d: "u_SmDequeueActiveEvent s = (o1, s1)" by force
  show ?case
  proof (cases o1)
    case None
    with d "1.prems" show ?thesis
      by (auto simp: active_loop_None dest: dequeue_active_None)
  next
    case (Some ev)
    obtain b s2 where p: "u_SmProcessEvent tbl ev s1 = (b, s2)" by force
    show ?thesis
    proof (cases b)
      case True
      with d Some p "1.prems" have
        "u_SmProcessActiveEvents_loop tbl (c + 1)
           (XLOGD_DEBUG (Log_Consumed (INST_NAME s2) (mID ev) (mQCount (activeEvtQueue (sm s2)))) s2)
         = (c', s')"
        by (simp add: active_loop_used)
      with "1.IH"(1) [of o1 s1 ev b s2] d Some p True show ?thesis by simp
    next
      case False
      with d Some p "1.prems" have
        "u_SmProcessActiveEvents_loop tbl c (u_SmDeferEvent tbl ev s2) = (c', s')"
        by (simp add: active_loop_unused)
      with "1.IH"(2) [of o1 s1 ev b s2] d Some p False show ?thesis by simp
    qed
  qed
qed

lemma active_loop_count:
  "u_SmProcessActiveEvents_loop tbl c s = (c', s') \<Longrightarrow>
     c \<le> c' \<and> (mQCount (activeEvtQueue (sm s)) = 0 \<longrightarrow> c' = c \<and> s' = s)"
proof (induction tbl c s rule: u_SmProcessActiveEvents_loop.induct)
  case (1 tbl c s)
  obtain o1 s1 where d: "u_SmDequeueActiveEvent s = (o1, s1)" by force
  show ?case
  proof (cases o1)
    case None
    with d "1.prems" show ?thesis
      by (auto simp: active_loop_None dest: dequeue_active_None)
  next
    case (Some ev)
    from d Some have ne: "mQCount (activeEvtQueue (sm s)) \<noteq> 0"
      using dequeue_active_count [of s ev s1] by auto
    obtain b s2 where p: "u_SmProcessEvent tbl ev s1 = (b, s2)" by force
    show ?thesis
    proof (cases b)
      case True
      with d Some p "1.prems" have
        "u_SmProcessActiveEvents_loop tbl (c + 1)
           (XLOGD_DEBUG (Log_Consumed (INST_NAME s2) (mID ev) (mQCount (activeEvtQueue (sm s2)))) s2)
         = (c', s')"
        by (simp add: active_loop_used)
      with "1.IH"(1) [of o1 s1 ev b s2] d Some p True ne show ?thesis by simp
    next
      case False
      with d Some p "1.prems" have
        "u_SmProcessActiveEvents_loop tbl c (u_SmDeferEvent tbl ev s2) = (c', s')"
        by (simp add: active_loop_unused)
      with "1.IH"(2) [of o1 s1 ev b s2] d Some p False ne show ?thesis by simp
    qed
  qed
qed

lemma active_pass_empty:
  "mQCount (activeEvtQueue (sm s)) = 0 \<Longrightarrow> u_SmProcessActiveEvents tbl s = (False, s)"
proof -
  assume e: "mQCount (activeEvtQueue (sm s)) = 0"
  obtain c' s' where l: "u_SmProcessActiveEvents_loop tbl 0 s = (c', s')" by force
  from active_loop_count [OF l] e have "c' = 0" "s' = s" by auto
  with l show ?thesis by (simp add: u_SmProcessActiveEvents_def)
qed

lemma active_pass_drains:
  "u_SmProcessActiveEvents tbl s = (b, s') \<Longrightarrow> mQCount (activeEvtQueue (sm s')) = 0"
  by (auto simp: u_SmProcessActiveEvents_def split: prod.splits dest: active_loop_drains)

lemma deferred_loop_active:
  "u_SmProcessDeferredEvents_loop tbl m i c s = (i', c', s') \<Longrightarrow>
     activeEvtQueue (sm s') = activeEvtQueue (sm s)"
proof (induction tbl m i c s rule: u_SmProcessDeferredEvents_loop.induct)
  case (1 tbl m i c s)
  obtain o1 s1 where d: "u_SmDequeueDeferredEvent s = (o1, s1)" by force
  then have a1: "activeEvtQueue (sm s1) = activeEvtQueue (sm s)"
    by (auto simp: u_SmDequeueDeferredEvent_def split: prod.splits option.splits)
  show ?case
  proof (cases o1)
    case None
    with d a1 "1.prems" show ?thesis
      by (subst (asm) u_SmProcessDeferredEvents_loop.simps) simp
  next
    case (Some ev)
    obtain b s2 where p: "u_SmProcessEvent tbl ev s1 = (b, s2)" by force
    define c3 where "c3 = (if b then c + 1 else c)"
    define s3 where "s3 = (if b then s2 else u_SmDeferEvent tbl ev s2)"
    have a3: "activeEvtQueue (sm s3) = activeEvtQueue (sm s)"
      using process_event_queues [OF p] a1 by (simp add: s3_def)
    have step: "(case u_SmProcessEvent tbl ev s1 of
                    (True, s2) \<Rightarrow> (c + 1, s2)
                  | (False, s2) \<Rightarrow> (c, u_SmDeferEvent tbl ev s2)) = (c3, s3)"
      using p by (simp add: c3_def s3_def)
    show ?thesis
    proof (cases "i + 1 < m")
      case True
      with "1.prems" d Some step have
        "u_SmProcessDeferredEvents_loop tbl m (i + 1) c3 s3 = (i', c', s')"
        by (subst (asm) u_SmProcessDeferredEvents_loop.simps) simp
      with "1.IH" [of o1 s1 ev "(c3, s3)" c3 s3] d Some step True a3 show ?thesis by simp
    next
      case False
      with "1.prems" d Some step a3 show ?thesis
        by (subst (asm) u_SmProcessDeferredEvents_loop.simps) simp
    qed
  qed
qed

lemma deferred_pass_active:
  "u_SmProcessDeferredEvents tbl s = (b, s') \<Longrightarrow> activeEvtQueue (sm s') = activeEvtQueue (sm s)"
  by (auto simp: u_SmProcessDeferredEvents_def Let_def split: prod.splits dest: deferred_loop_active)

subsection \<open>The engine\<close>

text \<open>
  The \<^verbatim>\<open>do ... while\<close> of \<^verbatim>\<open>_SmEngine\<close>. It terminates because a cycle that runs the
  deferred pass started with a non-empty active queue and ends with an empty one.
\<close>

function u_SmEngine_loop :: "('st, 'w) state_table \<Rightarrow> ('st, 'w) machine \<Rightarrow> ('st, 'w) machine" where
  "u_SmEngine_loop tbl s =
     (let (bChangedStatesUsingActiveEvents, s1) = u_SmProcessActiveEvents tbl s;
          (bChangedStatesUsingDeferredEvents, s2) =
             (if bChangedStatesUsingActiveEvents \<and> 0 \<noteq> mQCount (deferredEvtQueue (sm s1))
              then u_SmProcessDeferredEvents tbl s1
              else (False, s1))
      in if bChangedStatesUsingDeferredEvents then u_SmEngine_loop tbl s2 else s2)"
  by pat_completeness auto
termination
proof (relation "measure (\<lambda>(tbl, s). if mQCount (activeEvtQueue (sm s)) = 0 then 0 else (1::nat))")
  show "wf (measure (\<lambda>(tbl :: ('st, 'w) state_table, s :: ('st, 'w) machine).
             if mQCount (activeEvtQueue (sm s)) = 0 then 0 else (1::nat)))"
    by simp
next
  fix tbl :: "('st, 'w) state_table" and s :: "('st, 'w) machine" and x bAct s1 xa bDef s2
  assume a: "x = u_SmProcessActiveEvents tbl s" "(bAct, s1) = x"
    and d: "xa = (if bAct \<and> 0 \<noteq> mQCount (deferredEvtQueue (sm s1))
                  then u_SmProcessDeferredEvents tbl s1 else (False, s1))"
       "(bDef, s2) = xa" and b: "bDef"
  from a have act: "u_SmProcessActiveEvents tbl s = (bAct, s1)" by simp
  from d b have def: "u_SmProcessDeferredEvents tbl s1 = (bDef, s2)" and "bAct"
    by (auto split: if_splits)
  from act \<open>bAct\<close> have "mQCount (activeEvtQueue (sm s)) \<noteq> 0"
    using active_pass_empty [of s tbl] by auto
  moreover have "mQCount (activeEvtQueue (sm s2)) = 0"
    using deferred_pass_active [OF def] active_pass_drains [OF act] by simp
  ultimately show "((tbl, s2), (tbl, s)) \<in>
      measure (\<lambda>(tbl, s). if mQCount (activeEvtQueue (sm s)) = 0 then 0 else (1::nat))"
    by simp
qed

definition u_SmEngine :: "('st, 'w) state_table \<Rightarrow> ('st, 'w) machine \<Rightarrow> ('st, 'w) machine" where
  "u_SmEngine tbl s =
     (let s' = u_SmEngine_loop tbl s
      in XLOGD_DEBUG (Log_EngineExit (INST_NAME s') (mQCount (activeEvtQueue (sm s')))
                        (mQCount (deferredEvtQueue (sm s')))) s')"

definition SmProcessEvents :: "('st, 'w) state_table \<Rightarrow> ('st, 'w) machine \<Rightarrow> ('st, 'w) machine" where
  "SmProcessEvents tbl s = u_SmEngine tbl s"

section \<open>The queue as a bounded FIFO\<close>

text \<open>
  The invariant of a queue: the array holds \<open>mQSize\<close> events, the count is at most the
  size, head and tail are indices below the size, and the tail is \<open>mQCount\<close> places after
  the head, around the end of the array. The events in the queue are the \<open>mQCount\<close> ones
  after the head: \<open>mQHead\<close> is the place of the event dequeued last, \<open>mQTail\<close> of
  the one enqueued last.
\<close>

definition queue_inv :: "tSmQueueEvt \<Rightarrow> bool" where
  "queue_inv q \<longleftrightarrow>
     unat (mQSize q) \<le> length (mpQData q) \<and>
     mQCount q \<le> mQSize q \<and> mQHead q < mQSize q \<and> mQTail q < mQSize q \<and>
     unat (mQTail q) = (unat (mQHead q) + unat (mQCount q)) mod unat (mQSize q)"

definition q_contents :: "tSmQueueEvt \<Rightarrow> tStateEvent list" where
  "q_contents q =
     map (\<lambda>i. mpQData q ! ((unat (mQHead q) + 1 + i) mod unat (mQSize q))) [0..<unat (mQCount q)]"

text \<open>What \<^verbatim>\<open>SmInit\<close> does to each of the two queues.\<close>

definition queue_reset :: "tSmQueueEvt \<Rightarrow> tSmQueueEvt" where
  "queue_reset q = q\<lparr>mQCount := 0, mQHead := 0, mQTail := 0\<rparr>"

text \<open>A run of enqueue and dequeue calls on one queue, with what each dequeue returned.\<close>

datatype q_op = Enq tStEventID tStEventData | Deq

fun run_queue :: "q_op list \<Rightarrow> tSmQueueEvt \<Rightarrow> tStateEvent option list \<times> tSmQueueEvt" where
  "run_queue [] q = ([], q)"
| "run_queue (Enq i d # ops) q = run_queue ops (u_SmEnqueueEvent q i d)"
| "run_queue (Deq # ops) q =
     (let (r, q1) = u_SmDequeueEvent q; (rs, q2) = run_queue ops q1 in (r # rs, q2))"

text \<open>
  The queue of the specification, in its words: a FIFO of at most \<open>cap\<close> events, where
  enqueue on a full queue is a no-op and dequeue on an empty queue returns none.
\<close>

fun fifo_spec ::
  "nat \<Rightarrow> q_op list \<Rightarrow> tStateEvent list \<Rightarrow> tStateEvent option list \<times> tStateEvent list" where
  "fifo_spec cap [] xs = ([], xs)"
| "fifo_spec cap (Enq i d # ops) xs =
     fifo_spec cap ops (if length xs = cap then xs else xs @ [\<lparr>mID = i, mData = d\<rparr>])"
| "fifo_spec cap (Deq # ops) [] = (let (rs, ys) = fifo_spec cap ops [] in (None # rs, ys))"
| "fifo_spec cap (Deq # ops) (x # xs) = (let (rs, ys) = fifo_spec cap ops xs in (Some x # rs, ys))"

section \<open>A machine to run\<close>

text \<open>
  The concrete inputs of the witnesses and counterexamples. Five states, named by numbers:
  A (0), B (1), C (2), D (3) and R (4). The entry point of R rejects every guard, the others
  accept; each call adds one to the application state, a counter. The events are 1 to 5.
  A goes to B on 1, tries R and then C on 2, tries R and then itself on 5, and defers 3
  and 4; B goes to C on 4 and defers 3; C goes to D on 3; D tries R on 2 and defers 2.
\<close>

definition ex_accept :: "nat tStateEntryPoint" where
  "ex_accept pEvent eAction w = (True, w + 1)"

definition ex_reject :: "nat tStateEntryPoint" where
  "ex_reject pEvent eAction w = (False, w + 1)"

definition ex_tbl :: "(nat, nat) state_table" where
  "ex_tbl st =
     (if st = 0 then
        \<lparr>mStateName = ''A'', mEntry = ex_accept,
         mpNextStates =
           [\<lparr>tStateGuard.mID = 2, mStInfo = 4\<rparr>, \<lparr>tStateGuard.mID = 2, mStInfo = 2\<rparr>,
            \<lparr>tStateGuard.mID = 1, mStInfo = 1\<rparr>,
            \<lparr>tStateGuard.mID = 5, mStInfo = 4\<rparr>, \<lparr>tStateGuard.mID = 5, mStInfo = 0\<rparr>],
         mpDeferEvtIDs = [3, 4]\<rparr>
      else if st = 1 then
        \<lparr>mStateName = ''B'', mEntry = ex_accept,
         mpNextStates = [\<lparr>tStateGuard.mID = 4, mStInfo = 2\<rparr>], mpDeferEvtIDs = [3]\<rparr>
      else if st = 2 then
        \<lparr>mStateName = ''C'', mEntry = ex_accept,
         mpNextStates = [\<lparr>tStateGuard.mID = 3, mStInfo = 3\<rparr>], mpDeferEvtIDs = []\<rparr>
      else if st = 3 then
        \<lparr>mStateName = ''D'', mEntry = ex_accept,
         mpNextStates = [\<lparr>tStateGuard.mID = 2, mStInfo = 4\<rparr>], mpDeferEvtIDs = [2]\<rparr>
      else
        \<lparr>mStateName = ''R'', mEntry = ex_reject, mpNextStates = [], mpDeferEvtIDs = []\<rparr>)"

text \<open>
  An instance as its owner declares it, before \<^verbatim>\<open>SmInit\<close>: both queues with arrays of
  \<open>n\<close> events and the size \<open>n\<close>, nothing else set.
\<close>

definition ex_machine :: "nat \<Rightarrow> (nat, nat) machine" where
  "ex_machine n =
     \<lparr>sm = \<lparr>mInstanceName = ''sm'', pCurrState = 3,
             activeEvtQueue = \<lparr>mQHead = 0, mQTail = 0, mQCount = 0, mQSize = of_nat n,
                                mpQData = replicate n \<lparr>mID = 0, mData = 0\<rparr>\<rparr>,
             deferredEvtQueue = \<lparr>mQHead = 0, mQTail = 0, mQCount = 0, mQSize = of_nat n,
                                  mpQData = replicate n \<lparr>mID = 0, mData = 0\<rparr>\<rparr>,
             bInitFinished = False\<rparr>,
      app = 0, calls = [], out = []\<rparr>"

definition ex_queue :: tSmQueueEvt where
  "ex_queue = \<lparr>mQHead = 5, mQTail = 7, mQCount = 9, mQSize = 2,
               mpQData = [\<lparr>mID = 0, mData = 0\<rparr>, \<lparr>mID = 0, mData = 0\<rparr>]\<rparr>"

definition ex_ops :: "q_op list" where
  "ex_ops = [Enq 1 10, Enq 2 20, Enq 3 30, Deq, Enq 4 40, Deq, Deq, Deq]"

definition ex_queue_end :: tSmQueueEvt where
  "ex_queue_end = \<lparr>mQHead = 1, mQTail = 1, mQCount = 0, mQSize = 2,
               mpQData = [\<lparr>mID = 2, mData = 20\<rparr>, \<lparr>mID = 4, mData = 40\<rparr>]\<rparr>"

text \<open>
  The machine with queues of one event, initialised, and the same machine after one
  enqueue, which fills its active queue.
\<close>

definition ex_room :: "(nat, nat) machine" where
  "ex_room = SmInit ex_tbl 0 (ex_machine 1)"

definition ex_full :: "(nat, nat) machine" where
  "ex_full = SmEnqueueEvent 7 77 ex_room"

text \<open>The machine with queues of four events, initialised in state D.\<close>

definition ex_in_D :: "(nat, nat) machine" where
  "ex_in_D = SmInit ex_tbl 3 (ex_machine 4)"

text \<open>The machine with queues of four events, initialised in state A.\<close>

definition ex_in_A :: "(nat, nat) machine" where
  "ex_in_A = SmInit ex_tbl 0 (ex_machine 4)"

text \<open>
  The machine after the active pass of: \<^verbatim>\<open>SmInit\<close> in A, enqueue 3, enqueue 4, enqueue 1.
  It is in B with the events 3 and 4 deferred.
\<close>

definition ex_before_replay :: "(nat, nat) machine" where
  "ex_before_replay =
     snd (u_SmProcessActiveEvents ex_tbl
            (SmEnqueueEvent 1 11 (SmEnqueueEvent 4 44 (SmEnqueueEvent 3 33 ex_in_A))))"

text \<open>
  The machine initialised in A with the events 3, 4 and 1 enqueued, and the machine after
  the active pass and one deferred replay from there.
\<close>

definition ex_three :: "(nat, nat) machine" where
  "ex_three = SmEnqueueEvent 1 11 (SmEnqueueEvent 4 44 (SmEnqueueEvent 3 33 ex_in_A))"

definition ex_after_replay :: "(nat, nat) machine" where
  "ex_after_replay = snd (u_SmProcessDeferredEvents ex_tbl ex_before_replay)"

section \<open>Reading a run\<close>

text \<open>The lines and the entry point calls that a step \<open>f\<close> adds when it runs from \<open>s\<close>.\<close>

definition printed_by ::
  "(('st, 'w) machine \<Rightarrow> ('st, 'w) machine) \<Rightarrow> ('st, 'w) machine \<Rightarrow> (log_level \<times> log_msg) list" where
  "printed_by f s = drop (length (out s)) (out (f s))"

definition calls_since ::
  "('st, 'w) machine \<Rightarrow> ('st, 'w) machine \<Rightarrow> ('st \<times> eStateAction \<times> tStateEvent) list" where
  "calls_since s s' = drop (length (calls s)) (calls s')"

text \<open>
  The pass prints one \<^verbatim>\<open>dq def event\<close> line for each event it takes off the deferred
  queue. \<open>dq_def_ids\<close> reads the ids of these events off the printed lines, in order.
\<close>

fun dq_def_ids :: "(log_level \<times> log_msg) list \<Rightarrow> tStEventID list" where
  "dq_def_ids [] = []"
| "dq_def_ids ((l, Log_DqDef n i c) # ls) = i # dq_def_ids ls"
| "dq_def_ids (x # ls) = dq_def_ids ls"

text \<open>
  For following a machine through a call: its current state, the events in its two queues,
  the capacities of the queues, and the invariant of both.
\<close>

definition in_config ::
  "nat \<Rightarrow> nat \<Rightarrow> ('st, 'w) machine \<Rightarrow> 'st \<Rightarrow> tStateEvent list \<Rightarrow> tStateEvent list \<Rightarrow> bool" where
  "in_config na nd s cur acts defs \<longleftrightarrow>
     pCurrState (sm s) = cur \<and>
     queue_inv (activeEvtQueue (sm s)) \<and> unat (mQSize (activeEvtQueue (sm s))) = na \<and>
     q_contents (activeEvtQueue (sm s)) = acts \<and>
     queue_inv (deferredEvtQueue (sm s)) \<and> unat (mQSize (deferredEvtQueue (sm s))) = nd \<and>
     q_contents (deferredEvtQueue (sm s)) = defs"

section \<open>Facts about the queue\<close>

subsection \<open>Enqueue and dequeue on a queue that satisfies the invariant\<close>

lemma unat_inc16: "(x :: 16 word) < y \<Longrightarrow> unat (x + 1) = unat x + 1"
proof -
  assume "x < y"
  then have "unat x < unat y" by (simp add: word_less_nat_alt)
  moreover have "unat y < 2 ^ 16" using unsigned_less [of y, where 'a = nat] by simp
  ultimately have "unat x + 1 < 2 ^ 16" by simp
  then show ?thesis by (simp add: unat_word_ariths)
qed

lemma inc_eq_iff: "(x :: 16 word) < y \<Longrightarrow> (x + 1 = y) = (unat x + 1 = unat y)"
  by (metis unat_inc16 word_unat_eq_iff)

lemma length_q_contents [simp]: "length (q_contents q) = unat (mQCount q)"
  by (simp add: q_contents_def)

lemma mod_shift_neq:
  assumes "(a::nat) < n" "0 < d" "d < n"
  shows "(a + d) mod n \<noteq> a"
proof (cases "a + d < n")
  case True
  then show ?thesis using assms by simp
next
  case False
  then have "(a + d) mod n = (a + d - n) mod n" by (simp add: le_mod_geq)
  also have "\<dots> = a + d - n" using assms by simp
  finally show ?thesis using assms False by simp
qed

lemma mod_step: "(h::nat) < n \<Longrightarrow> (if h + 1 = n then 0 else h + 1) = (h + 1) mod n"
  by auto

lemma enqueue_full: "u_SmQFull q \<Longrightarrow> u_SmEnqueueEvent q i d = q"
  by (simp add: u_SmEnqueueEvent_def)

lemma enqueue_fields:
  assumes "queue_inv q" "\<not> u_SmQFull q"
  shows "mQHead (u_SmEnqueueEvent q i d) = mQHead q"
    and "mQSize (u_SmEnqueueEvent q i d) = mQSize q"
    and "unat (mQCount (u_SmEnqueueEvent q i d)) = unat (mQCount q) + 1"
    and "unat (mQTail (u_SmEnqueueEvent q i d)) = (unat (mQTail q) + 1) mod unat (mQSize q)"
    and "mpQData (u_SmEnqueueEvent q i d) =
           (mpQData q)[(unat (mQTail q) + 1) mod unat (mQSize q) := \<lparr>mID = i, mData = d\<rparr>]"
proof -
  from assms have c: "mQCount q < mQSize q" and t: "mQTail q < mQSize q"
    by (auto simp: queue_inv_def u_SmQFull_def)
  have tn: "unat (mQTail q) < unat (mQSize q)" using t by (simp add: word_less_nat_alt)
  have t': "unat (mQTail (u_SmEnqueueEvent q i d)) = (unat (mQTail q) + 1) mod unat (mQSize q)"
    using assms(2) tn inc_eq_iff [OF t] unat_inc16 [OF t]
    by (auto simp: u_SmEnqueueEvent_def Let_def)
  show "mQHead (u_SmEnqueueEvent q i d) = mQHead q" "mQSize (u_SmEnqueueEvent q i d) = mQSize q"
    using assms(2) by (auto simp: u_SmEnqueueEvent_def Let_def)
  show "unat (mQCount (u_SmEnqueueEvent q i d)) = unat (mQCount q) + 1"
    using assms(2) unat_inc16 [OF c] by (auto simp: u_SmEnqueueEvent_def Let_def)
  show "unat (mQTail (u_SmEnqueueEvent q i d)) = (unat (mQTail q) + 1) mod unat (mQSize q)"
    by (rule t')
  show "mpQData (u_SmEnqueueEvent q i d) =
           (mpQData q)[(unat (mQTail q) + 1) mod unat (mQSize q) := \<lparr>mID = i, mData = d\<rparr>]"
    using assms(2) tn inc_eq_iff [OF t] unat_inc16 [OF t]
    by (auto simp: u_SmEnqueueEvent_def Let_def)
qed

lemma enqueue_inv: "queue_inv q \<Longrightarrow> queue_inv (u_SmEnqueueEvent q i d)"
proof (cases "u_SmQFull q")
  case True
  assume "queue_inv q"
  with True show ?thesis by (simp add: enqueue_full)
next
  case False
  assume inv: "queue_inv q"
  note f = enqueue_fields [OF inv False, of i d]
  from inv False have c: "unat (mQCount q) < unat (mQSize q)"
    by (auto simp: queue_inv_def u_SmQFull_def word_less_nat_alt word_le_nat_alt word_unat_eq_iff)
  from inv have h: "unat (mQHead q) < unat (mQSize q)"
    and tl: "unat (mQTail q) = (unat (mQHead q) + unat (mQCount q)) mod unat (mQSize q)"
    and len: "unat (mQSize q) \<le> length (mpQData q)"
    by (auto simp: queue_inv_def word_less_nat_alt)
  have "(unat (mQTail q) + 1) mod unat (mQSize q) =
        (unat (mQHead q) + (unat (mQCount q) + 1)) mod unat (mQSize q)"
    by (simp add: tl mod_simps add.assoc)
  with c h len show ?thesis
    unfolding queue_inv_def
    by (simp add: f word_less_nat_alt word_le_nat_alt)
qed

lemma enqueue_contents:
  assumes inv: "queue_inv q" and nf: "\<not> u_SmQFull q"
  shows "q_contents (u_SmEnqueueEvent q i d) = q_contents q @ [\<lparr>mID = i, mData = d\<rparr>]"
proof -
  note f = enqueue_fields [OF inv nf, of i d]
  let ?N = "unat (mQSize q)" and ?H = "unat (mQHead q)" and ?C = "unat (mQCount q)"
  from inv nf have c: "?C < ?N"
    by (auto simp: queue_inv_def u_SmQFull_def word_less_nat_alt word_le_nat_alt word_unat_eq_iff)
  from inv have h: "?H < ?N"
    and tl: "unat (mQTail q) = (?H + ?C) mod ?N"
    and len: "?N \<le> length (mpQData q)"
    by (auto simp: queue_inv_def word_less_nat_alt)
  have t': "(unat (mQTail q) + 1) mod ?N = (?H + 1 + ?C) mod ?N"
    by (simp add: tl mod_simps add.assoc add.commute)
  have lt: "(?H + 1 + ?C) mod ?N < length (mpQData q)"
  proof -
    from c have "0 < ?N" by simp
    then have "(?H + 1 + ?C) mod ?N < ?N" by (rule mod_less_divisor)
    with len show ?thesis by simp
  qed
  have distinct: "(?H + 1 + k) mod ?N \<noteq> (?H + 1 + ?C) mod ?N" if "k < ?C" for k
  proof -
    have "?H + 1 + ?C = (?H + 1 + k) + (?C - k)" using that by simp
    then have "(?H + 1 + ?C) mod ?N = ((?H + 1 + k) + (?C - k)) mod ?N" by simp
    also have "\<dots> = ((?H + 1 + k) mod ?N + (?C - k)) mod ?N"
      by (rule mod_add_left_eq [symmetric])
    finally have "(?H + 1 + ?C) mod ?N = ((?H + 1 + k) mod ?N + (?C - k)) mod ?N" .
    moreover have "(?H + 1 + k) mod ?N < ?N" using c by simp
    moreover have "0 < ?C - k" "?C - k < ?N" using that c by simp_all
    ultimately show ?thesis using mod_shift_neq by metis
  qed
  have distinct': "Suc (?H + k) mod ?N \<noteq> Suc (?H + ?C) mod ?N" if "k < ?C" for k
    using distinct [OF that] by simp
  show ?thesis
    unfolding q_contents_def f t'
    using lt by (auto simp: distinct' distinct' [THEN not_sym] nth_list_update)
qed


lemma dequeue_None: "u_SmDequeueEvent q = (None, q') \<Longrightarrow> q' = q \<and> mQCount q = 0"
  by (auto simp: u_SmDequeueEvent_def u_SmQEmpty_def Let_def split: if_splits)

lemma dequeue_empty: "mQCount q = 0 \<Longrightarrow> u_SmDequeueEvent q = (None, q)"
  by (simp add: u_SmDequeueEvent_def u_SmQEmpty_def)

lemma dequeue_fields:
  assumes inv: "queue_inv q" and d: "u_SmDequeueEvent q = (Some e, q')"
  shows "mQTail q' = mQTail q" and "mQSize q' = mQSize q" and "mpQData q' = mpQData q"
    and "unat (mQCount q') + 1 = unat (mQCount q)"
    and "unat (mQHead q') = (unat (mQHead q) + 1) mod unat (mQSize q)"
    and "e = mpQData q ! ((unat (mQHead q) + 1) mod unat (mQSize q))"
proof -
  from inv have h: "mQHead q < mQSize q" by (simp add: queue_inv_def)
  then have hn: "unat (mQHead q) < unat (mQSize q)" by (simp add: word_less_nat_alt)
  from d have ne: "mQCount q \<noteq> 0"
    by (auto simp: u_SmDequeueEvent_def u_SmQEmpty_def split: if_splits)
  then have cpos: "0 < unat (mQCount q)" by (simp add: unat_gt_0)
  show "mQTail q' = mQTail q" "mQSize q' = mQSize q" "mpQData q' = mpQData q"
    using d ne by (auto simp: u_SmDequeueEvent_def u_SmQEmpty_def Let_def split: if_splits)
  show "unat (mQCount q') + 1 = unat (mQCount q)"
    using d ne cpos
    by (auto simp: u_SmDequeueEvent_def u_SmQEmpty_def Let_def unat_minus_one split: if_splits)
  show h': "unat (mQHead q') = (unat (mQHead q) + 1) mod unat (mQSize q)"
    using d ne hn inc_eq_iff [OF h] unat_inc16 [OF h]
    by (auto simp: u_SmDequeueEvent_def u_SmQEmpty_def Let_def split: if_splits)
  show "e = mpQData q ! ((unat (mQHead q) + 1) mod unat (mQSize q))"
    using d ne hn inc_eq_iff [OF h] unat_inc16 [OF h]
    by (auto simp: u_SmDequeueEvent_def u_SmQEmpty_def Let_def split: if_splits)
qed

lemma dequeue_inv:
  assumes inv: "queue_inv q" and d: "u_SmDequeueEvent q = (r, q')"
  shows "queue_inv q'"
proof (cases r)
  case None
  with d inv show ?thesis by (auto dest: dequeue_None)
next
  case (Some e)
  note f = dequeue_fields [OF inv d [unfolded Some]]
  let ?N = "unat (mQSize q)" and ?H = "unat (mQHead q)" and ?C = "unat (mQCount q)"
  from inv have c: "?C \<le> ?N" and h: "?H < ?N"
    and tl: "unat (mQTail q) = (?H + ?C) mod ?N"
    and len: "?N \<le> length (mpQData q)"
    by (auto simp: queue_inv_def word_less_nat_alt word_le_nat_alt)
  have "?H + ?C = (?H + 1) + unat (mQCount q')" using f(4) by simp
  then have "(?H + ?C) mod ?N = ((?H + 1) mod ?N + unat (mQCount q')) mod ?N"
    by (simp only: mod_add_left_eq)
  with c h len tl f(4) show ?thesis
    unfolding queue_inv_def
    by (simp add: f(1,2,3,5) word_less_nat_alt word_le_nat_alt)
qed

lemma dequeue_contents:
  assumes inv: "queue_inv q" and d: "u_SmDequeueEvent q = (Some e, q')"
  shows "q_contents q = e # q_contents q'"
proof -
  note f = dequeue_fields [OF inv d]
  let ?N = "unat (mQSize q)" and ?H = "unat (mQHead q)" and ?C = "unat (mQCount q)"
  let ?g = "\<lambda>i. mpQData q ! ((?H + 1 + i) mod ?N)"
  have c: "?C = Suc (unat (mQCount q'))" using f(4) by simp
  have "q_contents q = map ?g [0..<Suc (unat (mQCount q'))]"
    by (simp only: q_contents_def c)
  also have "\<dots> = ?g 0 # map (\<lambda>i. ?g (Suc i)) [0..<unat (mQCount q')]"
    by (simp only: upt_conv_Cons [OF zero_less_Suc] list.map map_Suc_upt [symmetric] map_map comp_def)
  also have "?g 0 = e" using f(6) by simp
  also have "map (\<lambda>i. ?g (Suc i)) [0..<unat (mQCount q')] = q_contents q'"
    unfolding q_contents_def f(2,3,5)
  proof (rule map_cong [OF refl])
    fix i
    have "((?H + 1) mod ?N + 1 + i) mod ?N = ((?H + 1) mod ?N + (1 + i)) mod ?N"
      by (simp only: add.assoc)
    also have "\<dots> = ((?H + 1) + (1 + i)) mod ?N" by (rule mod_add_left_eq)
    also have "(?H + 1) + (1 + i) = ?H + 1 + Suc i" by simp
    finally have e: "((?H + 1) mod ?N + 1 + i) mod ?N = (?H + 1 + Suc i) mod ?N" .
    show "?g (Suc i) = mpQData q ! (((?H + 1) mod ?N + 1 + i) mod ?N)"
      by (simp only: e)
  qed
  finally show ?thesis .
qed

lemma dequeue_nonempty:
  "mQCount q \<noteq> 0 \<Longrightarrow> \<exists>e q'. u_SmDequeueEvent q = (Some e, q')"
  by (simp add: u_SmDequeueEvent_def u_SmQEmpty_def Let_def)

lemma queue_reset_inv:
  "0 < mQSize q \<Longrightarrow> unat (mQSize q) \<le> length (mpQData q) \<Longrightarrow> queue_inv (queue_reset q)"
  by (simp add: queue_inv_def queue_reset_def)

lemma queue_reset_contents [simp]: "q_contents (queue_reset q) = []"
  by (simp add: q_contents_def queue_reset_def)

lemma enqueue_size [simp]: "mQSize (u_SmEnqueueEvent q i d) = mQSize q"
  by (simp add: u_SmEnqueueEvent_def Let_def)

lemma dequeue_size: "u_SmDequeueEvent q = (r, q') \<Longrightarrow> mQSize q' = mQSize q"
  by (auto simp: u_SmDequeueEvent_def Let_def split: if_splits)

lemma full_iff_length:
  "u_SmQFull q \<longleftrightarrow> length (q_contents q) = unat (mQSize q)"
  by (simp add: u_SmQFull_def word_unat_eq_iff)

lemma empty_iff_contents: "u_SmQEmpty q \<longleftrightarrow> q_contents q = []"
  by (auto simp: u_SmQEmpty_def q_contents_def unat_eq_zero)

lemma run_queue_refines:
  "queue_inv q \<Longrightarrow> run_queue ops q = (rs, q') \<Longrightarrow>
     fifo_spec (unat (mQSize q)) ops (q_contents q) = (rs, q_contents q') \<and>
     queue_inv q' \<and> mQSize q' = mQSize q"
proof (induction ops arbitrary: q rs)
  case Nil
  then show ?case by simp
next
  case (Cons a ops)
  show ?case
  proof (cases a)
    case (Enq i d)
    let ?q1 = "u_SmEnqueueEvent q i d"
    from Cons.prems Enq have r: "run_queue ops ?q1 = (rs, q')" by simp
    have inv1: "queue_inv ?q1" using Cons.prems(1) by (rule enqueue_inv)
    have c1: "q_contents ?q1 =
        (if length (q_contents q) = unat (mQSize q) then q_contents q
         else q_contents q @ [\<lparr>mID = i, mData = d\<rparr>])"
    proof (cases "u_SmQFull q")
      case True
      then show ?thesis by (simp add: enqueue_full u_SmQFull_def)
    next
      case False
      then show ?thesis
        using enqueue_contents [OF Cons.prems(1) False]
        by (simp add: u_SmQFull_def word_unat_eq_iff)
    qed
    from Cons.IH [OF inv1 r] show ?thesis by (simp add: Enq c1)
  next
    case Deq
    obtain r q1 where d: "u_SmDequeueEvent q = (r, q1)" by force
    obtain rs1 where run1: "run_queue ops q1 = (rs1, q')" and rs: "rs = r # rs1"
      using Cons.prems(2) Deq d by (auto split: prod.splits)
    have inv1: "queue_inv q1" using Cons.prems(1) d by (rule dequeue_inv)
    have sz: "mQSize q1 = mQSize q" using d by (rule dequeue_size)
    note ih = Cons.IH [OF inv1 run1, unfolded sz]
    show ?thesis
    proof (cases r)
      case None
      with d have "q1 = q" "q_contents q = []"
        by (auto dest: dequeue_None simp: q_contents_def)
      with ih None rs show ?thesis by (simp add: Deq)
    next
      case (Some e)
      with d Cons.prems(1) have "q_contents q = e # q_contents q1"
        by (simp add: dequeue_contents)
      with ih Some rs show ?thesis by (simp add: Deq)
    qed
  qed
qed

section \<open>The queue: FIFO order, bounds and overflow\<close>

text \<open>
  C6. From the reset state of a queue with a capacity of at least one and an array that
  holds that many events, every sequence of enqueue and dequeue calls returns, dequeue by
  dequeue, what the bounded FIFO of the specification returns, and leaves the events of
  that FIFO in the queue; after the sequence (so after every operation) the count is at most the
  capacity, head and tail are below the capacity, the queue is empty exactly when the
  count is 0 and full exactly when the count is the capacity.
\<close>

theorem queue_fifo_and_bounds:
  assumes "0 < mQSize q0" and "unat (mQSize q0) \<le> length (mpQData q0)"
    and "run_queue ops (queue_reset q0) = (rs, q)"
  shows "fifo_spec (unat (mQSize q0)) ops [] = (rs, q_contents q) \<and>
         mQSize q = mQSize q0 \<and>
         mQCount q \<le> mQSize q \<and> mQHead q < mQSize q \<and> mQTail q < mQSize q \<and>
         (q_contents q = []) = (mQCount q = 0) \<and> u_SmQEmpty q = (mQCount q = 0) \<and>
         (length (q_contents q) = unat (mQSize q)) = (mQCount q = mQSize q) \<and>
         u_SmQFull q = (mQCount q = mQSize q)"
proof -
  have inv0: "queue_inv (queue_reset q0)" using assms(1,2) by (rule queue_reset_inv)
  have sz0: "mQSize (queue_reset q0) = mQSize q0" by (simp add: queue_reset_def)
  from run_queue_refines [OF inv0 assms(3)]
  have f: "fifo_spec (unat (mQSize q0)) ops [] = (rs, q_contents q)"
    and inv: "queue_inv q" and sz: "mQSize q = mQSize q0"
    by (simp_all add: sz0)
  from inv have b: "mQCount q \<le> mQSize q" "mQHead q < mQSize q" "mQTail q < mQSize q"
    by (simp_all add: queue_inv_def)
  have e: "(q_contents q = []) = (mQCount q = 0)" "u_SmQEmpty q = (mQCount q = 0)"
    using empty_iff_contents [of q] by (auto simp: u_SmQEmpty_def)
  have fl: "(length (q_contents q) = unat (mQSize q)) = (mQCount q = mQSize q)"
    "u_SmQFull q = (mQCount q = mQSize q)"
    using full_iff_length [of q] by (auto simp: u_SmQFull_def)
  from f sz b e fl show ?thesis by simp
qed

lemma ex_run:
  "run_queue ex_ops (queue_reset ex_queue) =
     ([Some \<lparr>mID = 1, mData = 10\<rparr>, Some \<lparr>mID = 2, mData = 20\<rparr>,
       Some \<lparr>mID = 4, mData = 40\<rparr>, None], ex_queue_end)"
  by (simp add: ex_ops_def ex_queue_def ex_queue_end_def queue_reset_def u_SmEnqueueEvent_def
      u_SmDequeueEvent_def u_SmQFull_def u_SmQEmpty_def Let_def)

theorem queue_fifo_and_bounds_witness:
  "0 < mQSize ex_queue \<and> unat (mQSize ex_queue) \<le> length (mpQData ex_queue) \<and>
   run_queue ex_ops (queue_reset ex_queue) =
     ([Some \<lparr>mID = 1, mData = 10\<rparr>, Some \<lparr>mID = 2, mData = 20\<rparr>,
       Some \<lparr>mID = 4, mData = 40\<rparr>, None], ex_queue_end) \<and>
   fifo_spec 2 ex_ops [] =
     ([Some \<lparr>mID = 1, mData = 10\<rparr>, Some \<lparr>mID = 2, mData = 20\<rparr>,
       Some \<lparr>mID = 4, mData = 40\<rparr>, None], q_contents ex_queue_end) \<and>
   mQCount ex_queue_end \<le> mQSize ex_queue_end \<and> mQHead ex_queue_end < mQSize ex_queue_end \<and>
   mQTail ex_queue_end < mQSize ex_queue_end \<and> u_SmQEmpty ex_queue_end \<and>
   \<not> u_SmQFull ex_queue_end"
proof -
  have h1: "0 < mQSize ex_queue" by (simp add: ex_queue_def)
  have h2: "unat (mQSize ex_queue) \<le> length (mpQData ex_queue)" by (simp add: ex_queue_def)
  have sz: "unat (mQSize ex_queue) = 2" by (simp add: ex_queue_def)
  have c: "mQCount ex_queue_end = 0" "mQSize ex_queue_end = 2" by (simp_all add: ex_queue_end_def)
  from queue_fifo_and_bounds [OF h1 h2 ex_run] h1 h2 ex_run show ?thesis
    by (simp add: sz c)
qed

text \<open>
  C7, as the code has it. Enqueue on a full queue is a no-op, and a silent one:
  \<^verbatim>\<open>_SmEnqueueEvent\<close> returns the queue as it was (count, head, tail and array), so the count
  is still the capacity and every later run of operations gives what it would have given;
  the function has no return value, and its two callers print the \<^verbatim>\<open>DEBUG\<close> line that they
  print after every enqueue, with the count that did not move, and change nothing else.
\<close>

theorem enqueue_full_silent_noop:
  assumes "u_SmQFull q"
  shows "u_SmEnqueueEvent q evtID evtData = q \<and>
         mQCount (u_SmEnqueueEvent q evtID evtData) = mQSize q \<and>
         q_contents (u_SmEnqueueEvent q evtID evtData) = q_contents q \<and>
         run_queue ops (u_SmEnqueueEvent q evtID evtData) = run_queue ops q \<and>
         (bInitFinished (sm s) \<and> activeEvtQueue (sm s) = q \<longrightarrow>
            SmEnqueueEvent evtID evtData s =
              XLOGD_DEBUG (Log_Enqueue (INST_NAME s) evtID (mQSize q)) s) \<and>
         (deferredEvtQueue (sm s) = q \<longrightarrow>
            u_SmEnqueueDeferredEvent evtID evtData s =
              XLOGD_DEBUG (Log_DefQueue (INST_NAME s) evtID (mQSize q)) s)"
proof -
  have n: "u_SmEnqueueEvent q evtID evtData = q" using assms by (rule enqueue_full)
  have c: "mQCount q = mQSize q" using assms by (simp add: u_SmQFull_def)
  show ?thesis
    by (simp add: n c SmEnqueueEvent_def u_SmEnqueueDeferredEvent_def INST_NAME_def)
qed

lemma ex_full_is_full: "u_SmQFull (activeEvtQueue (sm ex_full))"
  by (simp add: ex_full_def ex_room_def ex_machine_def SmInit_def SmEnqueueEvent_def
      u_SmEnqueueEvent_def u_SmQFull_def Let_def)

theorem enqueue_full_silent_noop_witness:
  "u_SmQFull (activeEvtQueue (sm ex_full)) \<and> bInitFinished (sm ex_full) \<and>
   u_SmEnqueueEvent (activeEvtQueue (sm ex_full)) 9 99 = activeEvtQueue (sm ex_full) \<and>
   q_contents (u_SmEnqueueEvent (activeEvtQueue (sm ex_full)) 9 99) = [\<lparr>mID = 7, mData = 77\<rparr>] \<and>
   SmEnqueueEvent 9 99 ex_full = XLOGD_DEBUG (Log_Enqueue ''sm'' 9 1) ex_full"
proof -
  have i: "bInitFinished (sm ex_full)"
    by (simp add: ex_full_def ex_room_def ex_machine_def SmInit_def SmEnqueueEvent_def Let_def)
  have c: "q_contents (activeEvtQueue (sm ex_full)) = [\<lparr>mID = 7, mData = 77\<rparr>]"
    by (simp add: ex_full_def ex_room_def ex_machine_def SmInit_def SmEnqueueEvent_def
        u_SmEnqueueEvent_def u_SmQFull_def q_contents_def Let_def)
  have n: "INST_NAME ex_full = ''sm''" "mQSize (activeEvtQueue (sm ex_full)) = 1"
    by (simp_all add: ex_full_def ex_room_def ex_machine_def SmInit_def SmEnqueueEvent_def
        INST_NAME_def Let_def)
  from enqueue_full_silent_noop [OF ex_full_is_full, of 9 99 "[]" ex_full] ex_full_is_full i c n
  show ?thesis by simp
qed

text \<open>
  C7 as the specification states it fails on "signals overflow": the call that overflows
  prints exactly what a call that succeeds prints (here the same line, the count being 1
  after both), and there is no return value to tell them apart.
\<close>

theorem enqueue_full_signal_counterexample:
  "u_SmQFull (activeEvtQueue (sm ex_full)) \<and> \<not> u_SmQFull (activeEvtQueue (sm ex_room)) \<and>
   printed_by (SmEnqueueEvent 9 99) ex_full = [(LOG_DEBUG, Log_Enqueue ''sm'' 9 1)] \<and>
   printed_by (SmEnqueueEvent 9 99) ex_room = [(LOG_DEBUG, Log_Enqueue ''sm'' 9 1)] \<and>
   sm (SmEnqueueEvent 9 99 ex_full) = sm ex_full \<and>
   sm (SmEnqueueEvent 9 99 ex_room) \<noteq> sm ex_room"
  by (simp add: printed_by_def ex_full_def ex_room_def ex_machine_def SmInit_def SmEnqueueEvent_def
      u_SmEnqueueEvent_def u_SmQFull_def INST_NAME_def ST_NAME_def Let_def)

section \<open>One event\<close>

lemma call_entry_calls:
  "call_entry tbl st ev act s = (r, s') \<Longrightarrow> calls s' = calls s @ [(st, act, ev)]"
  by (auto simp: call_entry_def split: prod.splits)

lemma call_entry_app:
  "call_entry tbl st ev act s = (r, s') \<Longrightarrow> (r, app s') = mEntry (tbl st) ev act (app s)"
  by (auto simp: call_entry_def split: prod.splits)

lemma call_entry_out:
  "call_entry tbl st ev act s = (r, s') \<Longrightarrow> out s' = out s"
  by (auto simp: call_entry_def split: prod.splits)

lemma can_defer_set: "can_defer i ds = (i \<in> set ds)"
  by (induction ds) auto

text \<open>A scan that uses nothing leaves the instance alone and has called guards only.\<close>

lemma scan_unused:
  "scan_next_states tbl ev gs s = (False, s') \<Longrightarrow>
     sm s' = sm s \<and>
     (\<exists>cs. calls s' = calls s @ cs \<and>
           (\<forall>c \<in> set cs. fst (snd c) = ACT_GUARD \<and> fst c \<noteq> pCurrState (sm s)))"
proof (induction gs arbitrary: s)
  case Nil
  then show ?case by simp
next
  case (Cons g gs)
  show ?case
  proof (cases "tStateGuard.mID g = mID ev")
    case False
    with Cons.prems have "scan_next_states tbl ev gs s = (False, s')" by simp
    from Cons.IH [OF this] show ?thesis .
  next
    case True
    note m = True
    show ?thesis
    proof (cases "pCurrState (sm s) = mStInfo g")
      case True
      with m Cons.prems show ?thesis by (simp add: Let_def split: prod.splits)
    next
      case False
      obtain b s1 where c: "call_entry tbl (mStInfo g) ev ACT_GUARD s = (b, s1)" by force
      show ?thesis
      proof (cases b)
        case True
        with m False c Cons.prems show ?thesis by (simp add: Let_def split: prod.splits)
      next
        case nb: False
        let ?s2 = "XLOGD_DEBUG (Log_Rejected (INST_NAME s1) (mStateName (tbl (mStInfo g)))
                                (mID ev) (mData ev)) s1"
        from m False c nb Cons.prems have r: "scan_next_states tbl ev gs ?s2 = (False, s')"
          by (simp add: Let_def)
        have sm1: "sm s1 = sm s" using c by (rule call_entry_sm)
        have cl1: "calls s1 = calls s @ [(mStInfo g, ACT_GUARD, ev)]" using c by (rule call_entry_calls)
        from Cons.IH [OF r] obtain cs where
          "sm s' = sm s" and "calls s' = calls s @ (mStInfo g, ACT_GUARD, ev) # cs"
          and "\<forall>c \<in> set cs. fst (snd c) = ACT_GUARD \<and> fst c \<noteq> pCurrState (sm s)"
          by (auto simp: sm1 cl1)
        with False show ?thesis by auto
      qed
    qed
  qed
qed

text \<open>
  C10. When \<^verbatim>\<open>_SmProcessEvent\<close> returns \<^verbatim>\<open>FALSE\<close>, the instance is what it was before the
  call: the same current state, the same active queue, the same deferred queue (and the
  same name and flag). Entry points may have been called, with \<open>ACT_GUARD\<close> only.
\<close>

theorem unconsumed_event_frame:
  assumes "u_SmProcessEvent tbl pNewEvent s = (False, s')"
  shows "sm s' = sm s \<and>
         pCurrState (sm s') = pCurrState (sm s) \<and>
         activeEvtQueue (sm s') = activeEvtQueue (sm s) \<and>
         deferredEvtQueue (sm s') = deferredEvtQueue (sm s) \<and>
         (\<forall>c \<in> set (calls_since s s'). fst (snd c) = ACT_GUARD)"
proof -
  from assms have "scan_next_states tbl pNewEvent (mpNextStates (tbl (pCurrState (sm s)))) s = (False, s')"
    by (simp add: u_SmProcessEvent_def)
  from scan_unused [OF this] show ?thesis by (auto simp: calls_since_def)
qed

lemma ex_in_D_unused:
  "u_SmProcessEvent ex_tbl \<lparr>mID = 2, mData = 22\<rparr> ex_in_D =
     (False, XLOGD_DEBUG (Log_Rejected ''sm'' ''R'' 2 22)
               (ex_in_D\<lparr>app := 1, calls := [(4, ACT_GUARD, \<lparr>mID = 2, mData = 22\<rparr>)]\<rparr>))"
  by (simp add: u_SmProcessEvent_def ex_in_D_def SmInit_def ex_machine_def ex_tbl_def call_entry_def
      ex_reject_def Let_def INST_NAME_def ST_NAME_def XLOGD_INFO_def XLOGD_DEBUG_def)

theorem unconsumed_event_frame_witness:
  "u_SmProcessEvent ex_tbl \<lparr>mID = 2, mData = 22\<rparr> ex_in_D =
     (False, XLOGD_DEBUG (Log_Rejected ''sm'' ''R'' 2 22)
               (ex_in_D\<lparr>app := 1, calls := [(4, ACT_GUARD, \<lparr>mID = 2, mData = 22\<rparr>)]\<rparr>)) \<and>
   sm (XLOGD_DEBUG (Log_Rejected ''sm'' ''R'' 2 22)
         (ex_in_D\<lparr>app := 1, calls := [(4, ACT_GUARD, \<lparr>mID = 2, mData = 22\<rparr>)]\<rparr>)) = sm ex_in_D \<and>
   calls_since ex_in_D (XLOGD_DEBUG (Log_Rejected ''sm'' ''R'' 2 22)
         (ex_in_D\<lparr>app := 1, calls := [(4, ACT_GUARD, \<lparr>mID = 2, mData = 22\<rparr>)]\<rparr>))
     = [(4, ACT_GUARD, \<lparr>mID = 2, mData = 22\<rparr>)]"
proof -
  have c: "calls ex_in_D = []" by (simp add: ex_in_D_def SmInit_def ex_machine_def Let_def)
  from unconsumed_event_frame [OF ex_in_D_unused] ex_in_D_unused c show ?thesis
    by (simp add: calls_since_def)
qed

section \<open>Deferral and initialisation\<close>

lemma defer_sm:
  "sm (u_SmDeferEvent tbl ev s) =
     (if mID ev \<in> set (mpDeferEvtIDs (tbl (pCurrState (sm s))))
      then (sm s)\<lparr>deferredEvtQueue := u_SmEnqueueEvent (deferredEvtQueue (sm s)) (mID ev) (mData ev)\<rparr>
      else sm s)"
  by (simp add: u_SmDeferEvent_def u_SmEnqueueDeferredEvent_def can_defer_set Let_def)

lemma defer_app_calls [simp]:
  "app (u_SmDeferEvent tbl ev s) = app s" "calls (u_SmDeferEvent tbl ev s) = calls s"
  by (simp_all add: u_SmDeferEvent_def u_SmEnqueueDeferredEvent_def Let_def)

text \<open>
  C8. Let the transition protocol leave an event unconsumed, from a machine \<open>s\<close>. If the
  event's id is in the deferrable list of the current state, \<^verbatim>\<open>_SmDeferEvent\<close> changes the
  instance by one \<^verbatim>\<open>_SmEnqueueEvent\<close> of the event's id and payload on the deferred queue
  and by nothing else: the event becomes the last of the deferred queue when there is room,
  and the instance stays as it was when that queue is full. If the id is not in the list,
  the instance stays as it was: current state, active queue and deferred queue. In both
  cases the application state is not touched and no entry point is called.
\<close>

theorem defer_or_drop:
  assumes "u_SmProcessEvent tbl pNewEvent s = (False, s1)"
  shows "(mID pNewEvent \<in> set (mpDeferEvtIDs (tbl (pCurrState (sm s)))) \<longrightarrow>
            sm (u_SmDeferEvent tbl pNewEvent s1) =
              (sm s)\<lparr>deferredEvtQueue :=
                        u_SmEnqueueEvent (deferredEvtQueue (sm s)) (mID pNewEvent) (mData pNewEvent)\<rparr> \<and>
            (queue_inv (deferredEvtQueue (sm s)) \<and> \<not> u_SmQFull (deferredEvtQueue (sm s)) \<longrightarrow>
               q_contents (deferredEvtQueue (sm (u_SmDeferEvent tbl pNewEvent s1))) =
                 q_contents (deferredEvtQueue (sm s)) @ [pNewEvent]) \<and>
            (u_SmQFull (deferredEvtQueue (sm s)) \<longrightarrow> sm (u_SmDeferEvent tbl pNewEvent s1) = sm s)) \<and>
         (mID pNewEvent \<notin> set (mpDeferEvtIDs (tbl (pCurrState (sm s)))) \<longrightarrow>
            sm (u_SmDeferEvent tbl pNewEvent s1) = sm s) \<and>
         app (u_SmDeferEvent tbl pNewEvent s1) = app s1 \<and>
         calls (u_SmDeferEvent tbl pNewEvent s1) = calls s1"
proof -
  from assms have "scan_next_states tbl pNewEvent (mpNextStates (tbl (pCurrState (sm s)))) s = (False, s1)"
    by (simp add: u_SmProcessEvent_def)
  from scan_unused [OF this] have e: "sm s1 = sm s" by simp
  have ev: "\<lparr>mID = mID pNewEvent, mData = mData pNewEvent\<rparr> = pNewEvent" by simp
  show ?thesis
    using enqueue_contents [of "deferredEvtQueue (sm s)" "mID pNewEvent" "mData pNewEvent"]
    by (auto simp: defer_sm e ev enqueue_full)
qed

text \<open>
  C9. While \<open>bInitFinished\<close> is false, \<^verbatim>\<open>SmEnqueueEvent\<close> leaves the whole instance as it
  was (so the active queue's count, head, tail and array, and every other field), leaves
  the application alone and prints one \<^verbatim>\<open>FATAL\<close> line. Once the flag is set, it changes the
  instance by one \<^verbatim>\<open>_SmEnqueueEvent\<close> on the active queue; \<^verbatim>\<open>SmInit\<close> sets the flag and
  resets the queue, so that after \<^verbatim>\<open>SmInit\<close> an enqueued event is the one event of the
  active queue, provided the queue has a capacity of at least one and its array.
\<close>

theorem enqueue_needs_init:
  "(\<not> bInitFinished (sm s) \<longrightarrow>
      sm (SmEnqueueEvent evtID evtData s) = sm s \<and>
      app (SmEnqueueEvent evtID evtData s) = app s \<and>
      calls (SmEnqueueEvent evtID evtData s) = calls s \<and>
      printed_by (SmEnqueueEvent evtID evtData) s =
        [(LOG_FATAL, Log_NoInit (INST_NAME s) evtID (mQCount (activeEvtQueue (sm s))))]) \<and>
   (bInitFinished (sm s) \<longrightarrow>
      sm (SmEnqueueEvent evtID evtData s) =
        (sm s)\<lparr>activeEvtQueue := u_SmEnqueueEvent (activeEvtQueue (sm s)) evtID evtData\<rparr>) \<and>
   bInitFinished (sm (SmInit tbl pInitialStateInfo s)) \<and>
   activeEvtQueue (sm (SmInit tbl pInitialStateInfo s)) = queue_reset (activeEvtQueue (sm s)) \<and>
   sm (SmEnqueueEvent evtID evtData (SmInit tbl pInitialStateInfo s)) =
     (sm (SmInit tbl pInitialStateInfo s))
       \<lparr>activeEvtQueue := u_SmEnqueueEvent (queue_reset (activeEvtQueue (sm s))) evtID evtData\<rparr> \<and>
   (0 < mQSize (activeEvtQueue (sm s)) \<and>
    unat (mQSize (activeEvtQueue (sm s))) \<le> length (mpQData (activeEvtQueue (sm s))) \<longrightarrow>
      q_contents (activeEvtQueue (sm (SmEnqueueEvent evtID evtData (SmInit tbl pInitialStateInfo s))))
        = [\<lparr>mID = evtID, mData = evtData\<rparr>])"
proof -
  have i: "bInitFinished (sm (SmInit tbl pInitialStateInfo s))"
    by (simp add: SmInit_def Let_def)
  have a: "activeEvtQueue (sm (SmInit tbl pInitialStateInfo s)) = queue_reset (activeEvtQueue (sm s))"
    by (simp add: SmInit_def Let_def queue_reset_def)
  have e: "sm (SmEnqueueEvent evtID evtData s') =
             (sm s')\<lparr>activeEvtQueue := u_SmEnqueueEvent (activeEvtQueue (sm s')) evtID evtData\<rparr>"
    if "bInitFinished (sm s')" for s' :: "('a, 'b) machine"
    using that by (simp add: SmEnqueueEvent_def Let_def)
  have c: "q_contents (u_SmEnqueueEvent (queue_reset (activeEvtQueue (sm s))) evtID evtData)
             = [\<lparr>mID = evtID, mData = evtData\<rparr>]"
    if h: "0 < mQSize (activeEvtQueue (sm s))"
      "unat (mQSize (activeEvtQueue (sm s))) \<le> length (mpQData (activeEvtQueue (sm s)))"
  proof -
    have inv: "queue_inv (queue_reset (activeEvtQueue (sm s)))" using h by (rule queue_reset_inv)
    have nf: "\<not> u_SmQFull (queue_reset (activeEvtQueue (sm s)))"
      using h(1) by (auto simp: u_SmQFull_def queue_reset_def)
    from enqueue_contents [OF inv nf] show ?thesis by simp
  qed
  have n: "sm (SmEnqueueEvent evtID evtData s) = sm s \<and>
      app (SmEnqueueEvent evtID evtData s) = app s \<and>
      calls (SmEnqueueEvent evtID evtData s) = calls s \<and>
      printed_by (SmEnqueueEvent evtID evtData) s =
        [(LOG_FATAL, Log_NoInit (INST_NAME s) evtID (mQCount (activeEvtQueue (sm s))))]"
    if "\<not> bInitFinished (sm s)"
    using that by (simp add: SmEnqueueEvent_def printed_by_def)
  have e1: "sm (SmEnqueueEvent evtID evtData (SmInit tbl pInitialStateInfo s)) =
     (sm (SmInit tbl pInitialStateInfo s))
       \<lparr>activeEvtQueue := u_SmEnqueueEvent (queue_reset (activeEvtQueue (sm s))) evtID evtData\<rparr>"
    using e [OF i] by (simp add: a)
  have c1: "q_contents (activeEvtQueue (sm (SmEnqueueEvent evtID evtData (SmInit tbl pInitialStateInfo s))))
        = [\<lparr>mID = evtID, mData = evtData\<rparr>]"
    if "0 < mQSize (activeEvtQueue (sm s))"
      "unat (mQSize (activeEvtQueue (sm s))) \<le> length (mpQData (activeEvtQueue (sm s)))"
    using c [OF that] by (simp add: e1)
  from n e i a e1 c1 show ?thesis by blast
qed


lemma ex_in_D_facts:
  "sm ex_in_D = \<lparr>mInstanceName = ''sm'', pCurrState = 3,
             activeEvtQueue = \<lparr>mQHead = 0, mQTail = 0, mQCount = 0, mQSize = 4,
                                mpQData = replicate 4 \<lparr>mID = 0, mData = 0\<rparr>\<rparr>,
             deferredEvtQueue = \<lparr>mQHead = 0, mQTail = 0, mQCount = 0, mQSize = 4,
                                  mpQData = replicate 4 \<lparr>mID = 0, mData = 0\<rparr>\<rparr>,
             bInitFinished = True\<rparr>"
  by (simp add: ex_in_D_def SmInit_def ex_machine_def Let_def)

theorem defer_or_drop_witness:
  "u_SmProcessEvent ex_tbl \<lparr>mID = 2, mData = 22\<rparr> ex_in_D =
     (False, XLOGD_DEBUG (Log_Rejected ''sm'' ''R'' 2 22)
               (ex_in_D\<lparr>app := 1, calls := [(4, ACT_GUARD, \<lparr>mID = 2, mData = 22\<rparr>)]\<rparr>)) \<and>
   mID \<lparr>mID = 2, mData = 22\<rparr> \<in> set (mpDeferEvtIDs (ex_tbl (pCurrState (sm ex_in_D)))) \<and>
   queue_inv (deferredEvtQueue (sm ex_in_D)) \<and> \<not> u_SmQFull (deferredEvtQueue (sm ex_in_D)) \<and>
   q_contents (deferredEvtQueue (sm (u_SmDeferEvent ex_tbl \<lparr>mID = 2, mData = 22\<rparr>
      (XLOGD_DEBUG (Log_Rejected ''sm'' ''R'' 2 22)
               (ex_in_D\<lparr>app := 1, calls := [(4, ACT_GUARD, \<lparr>mID = 2, mData = 22\<rparr>)]\<rparr>)))))
     = [\<lparr>mID = 2, mData = 22\<rparr>]"
proof -
  have m: "mID \<lparr>mID = 2, mData = 22\<rparr> \<in> set (mpDeferEvtIDs (ex_tbl (pCurrState (sm ex_in_D))))"
    by (simp add: ex_in_D_facts ex_tbl_def)
  have inv: "queue_inv (deferredEvtQueue (sm ex_in_D))"
    by (simp add: ex_in_D_facts queue_inv_def)
  have nf: "\<not> u_SmQFull (deferredEvtQueue (sm ex_in_D))"
    by (simp add: ex_in_D_facts u_SmQFull_def)
  have c: "q_contents (deferredEvtQueue (sm ex_in_D)) = []"
    by (simp add: ex_in_D_facts q_contents_def)
  from defer_or_drop [OF ex_in_D_unused] m inv nf
  have "q_contents (deferredEvtQueue (sm (u_SmDeferEvent ex_tbl \<lparr>mID = 2, mData = 22\<rparr>
      (XLOGD_DEBUG (Log_Rejected ''sm'' ''R'' 2 22)
               (ex_in_D\<lparr>app := 1, calls := [(4, ACT_GUARD, \<lparr>mID = 2, mData = 22\<rparr>)]\<rparr>)))))
     = q_contents (deferredEvtQueue (sm ex_in_D)) @ [\<lparr>mID = 2, mData = 22\<rparr>]"
    by blast
  then have "q_contents (deferredEvtQueue (sm (u_SmDeferEvent ex_tbl \<lparr>mID = 2, mData = 22\<rparr>
      (XLOGD_DEBUG (Log_Rejected ''sm'' ''R'' 2 22)
               (ex_in_D\<lparr>app := 1, calls := [(4, ACT_GUARD, \<lparr>mID = 2, mData = 22\<rparr>)]\<rparr>)))))
     = [\<lparr>mID = 2, mData = 22\<rparr>]"
    by (simp only: c append_Nil)
  with ex_in_D_unused m inv nf show ?thesis by blast
qed

theorem enqueue_needs_init_witness:
  "\<not> bInitFinished (sm (ex_machine 4)) \<and>
   sm (SmEnqueueEvent 5 55 (ex_machine 4)) = sm (ex_machine 4) \<and>
   printed_by (SmEnqueueEvent 5 55) (ex_machine 4) = [(LOG_FATAL, Log_NoInit ''sm'' 5 0)] \<and>
   bInitFinished (sm (SmInit ex_tbl 0 (ex_machine 4))) \<and>
   q_contents (activeEvtQueue (sm (SmEnqueueEvent 5 55 (SmInit ex_tbl 0 (ex_machine 4)))))
     = [\<lparr>mID = 5, mData = 55\<rparr>]"
proof -
  have n: "\<not> bInitFinished (sm (ex_machine 4))" by (simp add: ex_machine_def)
  have h: "0 < mQSize (activeEvtQueue (sm (ex_machine 4)))"
    "unat (mQSize (activeEvtQueue (sm (ex_machine 4))))
       \<le> length (mpQData (activeEvtQueue (sm (ex_machine 4))))"
    by (simp_all add: ex_machine_def)
  have v: "INST_NAME (ex_machine 4) = ''sm''" "mQCount (activeEvtQueue (sm (ex_machine 4))) = 0"
    by (simp_all add: ex_machine_def INST_NAME_def)
  note t = enqueue_needs_init [of "ex_machine 4" 5 55 ex_tbl 0, unfolded v]
  from t n h show ?thesis by blast
qed

section \<open>The scan of the next-state array\<close>

lemma scan_append:
  "scan_next_states tbl ev pre s = (False, s1) \<Longrightarrow>
     scan_next_states tbl ev (pre @ gs) s = scan_next_states tbl ev gs s1"
proof (induction pre arbitrary: s)
  case Nil
  then show ?case by simp
next
  case (Cons g pre)
  show ?case
  proof (cases "tStateGuard.mID g = mID ev")
    case False
    with Cons show ?thesis by simp
  next
    case True
    note m = True
    show ?thesis
    proof (cases "pCurrState (sm s) = mStInfo g")
      case True
      with m Cons.prems show ?thesis by (simp add: Let_def split: prod.splits)
    next
      case False
      obtain b s2 where c: "call_entry tbl (mStInfo g) ev ACT_GUARD s = (b, s2)" by force
      show ?thesis
      proof (cases b)
        case True
        with m False c Cons.prems show ?thesis by (simp add: Let_def split: prod.splits)
      next
        case nb: False
        with m False c Cons.prems Cons.IH show ?thesis by (simp add: Let_def)
      qed
    qed
  qed
qed

lemma scan_rejecting:
  assumes "\<forall>p \<in> set pre. tStateGuard.mID p = mID ev \<longrightarrow>
             mStInfo p \<noteq> pCurrState (sm s) \<and>
             (\<forall>w. \<not> fst (mEntry (tbl (mStInfo p)) ev ACT_GUARD w))"
  shows "\<exists>s1. scan_next_states tbl ev pre s = (False, s1) \<and> sm s1 = sm s \<and>
              calls s1 = calls s @ map (\<lambda>p. (mStInfo p, ACT_GUARD, ev))
                                     (filter (\<lambda>p. tStateGuard.mID p = mID ev) pre)"
  using assms
proof (induction pre arbitrary: s)
  case Nil
  then show ?case by simp
next
  case (Cons g pre)
  show ?case
  proof (cases "tStateGuard.mID g = mID ev")
    case False
    with Cons.IH [of s] Cons.prems show ?thesis by simp
  next
    case True
    with Cons.prems have ns: "mStInfo g \<noteq> pCurrState (sm s)"
      and rj: "\<not> fst (mEntry (tbl (mStInfo g)) ev ACT_GUARD (app s))"
      by simp_all
    obtain b s2 where c: "call_entry tbl (mStInfo g) ev ACT_GUARD s = (b, s2)" by force
    from call_entry_app [OF c] rj have nb: "\<not> b" by (metis fst_conv)
    let ?s3 = "XLOGD_DEBUG (Log_Rejected (INST_NAME s2) (mStateName (tbl (mStInfo g)))
                              (mID ev) (mData ev)) s2"
    have sm3: "sm ?s3 = sm s" using call_entry_sm [OF c] by simp
    have cl3: "calls ?s3 = calls s @ [(mStInfo g, ACT_GUARD, ev)]"
      using call_entry_calls [OF c] by simp
    have "\<forall>p \<in> set pre. tStateGuard.mID p = mID ev \<longrightarrow>
             mStInfo p \<noteq> pCurrState (sm ?s3) \<and>
             (\<forall>w. \<not> fst (mEntry (tbl (mStInfo p)) ev ACT_GUARD w))"
      using Cons.prems call_entry_sm [OF c] by simp
    from Cons.IH [OF this] obtain s1 where
      "scan_next_states tbl ev pre ?s3 = (False, s1)" "sm s1 = sm s"
      "calls s1 = calls s @ (mStInfo g, ACT_GUARD, ev) #
          map (\<lambda>p. (mStInfo p, ACT_GUARD, ev)) (filter (\<lambda>p. tStateGuard.mID p = mID ev) pre)"
      using call_entry_sm [OF c] call_entry_calls [OF c] by auto
    with True ns c nb show ?thesis by (auto simp: Let_def)
  qed
qed

text \<open>The scan at an entry that matches, for another state, whose guard accepts.\<close>

lemma scan_accept:
  assumes "tStateGuard.mID g = mID ev" and "mStInfo g \<noteq> pCurrState (sm s)"
    and "fst (mEntry (tbl (mStInfo g)) ev ACT_GUARD (app s))"
    and "scan_next_states tbl ev (g # post) s = (b, s')"
  shows "b \<and> sm s' = (sm s)\<lparr>pCurrState := mStInfo g\<rparr> \<and>
         calls s' = calls s @ [(mStInfo g, ACT_GUARD, ev), (pCurrState (sm s), ACT_EXIT, ev),
                               (mStInfo g, ACT_ENTER, ev)]"
proof -
  obtain b1 s1 where c1: "call_entry tbl (mStInfo g) ev ACT_GUARD s = (b1, s1)" by force
  from call_entry_app [OF c1] assms(3) have b1: "b1" by (metis fst_conv)
  let ?s2 = "XLOGD_DEBUG (Log_Exit (INST_NAME s1) (ST_NAME tbl s1) (mID ev) (mData ev)) s1"
  obtain r3 s3 where c3: "call_entry tbl (pCurrState (sm s)) ev ACT_EXIT ?s2 = (r3, s3)" by force
  let ?s4 = "s3\<lparr>sm := (sm s3)\<lparr>pCurrState := mStInfo g\<rparr>\<rparr>"
  let ?s5 = "XLOGD_DEBUG (Log_Enter (INST_NAME ?s4) (ST_NAME tbl ?s4) (mID ev) (mData ev)) ?s4"
  obtain r6 s6 where c6: "call_entry tbl (mStInfo g) ev ACT_ENTER ?s5 = (r6, s6)" by force
  have sm1: "sm s1 = sm s" using c1 by (rule call_entry_sm)
  have sm3: "sm s3 = sm s" using call_entry_sm [OF c3] sm1 by simp
  have sm6: "sm s6 = (sm s)\<lparr>pCurrState := mStInfo g\<rparr>" using call_entry_sm [OF c6] sm3 by simp
  have cl: "calls s6 = calls s @ [(mStInfo g, ACT_GUARD, ev), (pCurrState (sm s), ACT_EXIT, ev),
                               (mStInfo g, ACT_ENTER, ev)]"
    using call_entry_calls [OF c1] call_entry_calls [OF c3] call_entry_calls [OF c6] by simp
  have "scan_next_states tbl ev (g # post) s = (True, s6)"
    using assms(1,2) c1 b1 c3 c6 by (simp add: Let_def sm1)
  with assms(4) sm6 cl show ?thesis by simp
qed

lemma scan_internal:
  assumes "tStateGuard.mID g = mID ev" and "mStInfo g = pCurrState (sm s)"
    and "scan_next_states tbl ev (g # post) s = (b, s')"
  shows "b \<and> sm s' = sm s \<and> calls s' = calls s @ [(pCurrState (sm s), ACT_INTERNAL, ev)] \<and>
         app s' = snd (mEntry (tbl (pCurrState (sm s))) ev ACT_INTERNAL (app s))"
proof -
  let ?s1 = "XLOGD_DEBUG (Log_Internal (INST_NAME s) (ST_NAME tbl s) (mID ev) (mData ev)) s"
  obtain r s2 where c: "call_entry tbl (pCurrState (sm s)) ev ACT_INTERNAL ?s1 = (r, s2)" by force
  have "scan_next_states tbl ev (g # post) s = (True, s2)"
    using assms(1,2) c by (simp add: Let_def)
  with assms(3) call_entry_sm [OF c] call_entry_calls [OF c] call_entry_app [OF c]
  show ?thesis by (auto simp: snd_def split: prod.splits)
qed


lemma scan_accept_app:
  assumes "tStateGuard.mID g = mID ev" and "mStInfo g \<noteq> pCurrState (sm s)"
    and "fst (mEntry (tbl (mStInfo g)) ev ACT_GUARD (app s))"
    and "scan_next_states tbl ev (g # post) s = (b, s')"
  shows "app s' =
           snd (mEntry (tbl (mStInfo g)) ev ACT_ENTER
             (snd (mEntry (tbl (pCurrState (sm s))) ev ACT_EXIT
               (snd (mEntry (tbl (mStInfo g)) ev ACT_GUARD (app s))))))"
proof -
  obtain b1 s1 where c1: "call_entry tbl (mStInfo g) ev ACT_GUARD s = (b1, s1)" by force
  from call_entry_app [OF c1] assms(3) have b1: "b1" by (metis fst_conv)
  let ?s2 = "XLOGD_DEBUG (Log_Exit (INST_NAME s1) (ST_NAME tbl s1) (mID ev) (mData ev)) s1"
  obtain r3 s3 where c3: "call_entry tbl (pCurrState (sm s)) ev ACT_EXIT ?s2 = (r3, s3)" by force
  let ?s4 = "s3\<lparr>sm := (sm s3)\<lparr>pCurrState := mStInfo g\<rparr>\<rparr>"
  let ?s5 = "XLOGD_DEBUG (Log_Enter (INST_NAME ?s4) (ST_NAME tbl ?s4) (mID ev) (mData ev)) ?s4"
  obtain r6 s6 where c6: "call_entry tbl (mStInfo g) ev ACT_ENTER ?s5 = (r6, s6)" by force
  have sm1: "sm s1 = sm s" using c1 by (rule call_entry_sm)
  have a1: "app s1 = snd (mEntry (tbl (mStInfo g)) ev ACT_GUARD (app s))"
    using call_entry_app [OF c1] by (metis snd_conv)
  have a3: "app s3 = snd (mEntry (tbl (pCurrState (sm s))) ev ACT_EXIT (app s1))"
    using call_entry_app [OF c3] by (metis XLOGD_app(1) snd_conv)
  have a6: "app s6 = snd (mEntry (tbl (mStInfo g)) ev ACT_ENTER (app s3))"
    using call_entry_app [OF c6] by (metis XLOGD_app(1) select_convs(2) surjective update_convs(1) snd_conv)
  have "scan_next_states tbl ev (g # post) s = (True, s6)"
    using assms(1,2) c1 b1 c3 c6 by (simp add: Let_def sm1)
  with assms(4) have "s' = s6" by simp
  then show ?thesis by (simp only: a6 a3 a1)
qed

text \<open>
  The scan at an entry that matches, for another state, whose guard rejects: the guard has
  been called, the rejection is printed, and the scan goes on with the entries that follow.
\<close>

lemma scan_reject_step:
  assumes "tStateGuard.mID p = mID ev" and "mStInfo p \<noteq> pCurrState (sm s0)"
    and "\<not> fst (mEntry (tbl (mStInfo p)) ev ACT_GUARD (app s0))"
  shows "scan_next_states tbl ev (p # ps) s0 =
           scan_next_states tbl ev ps
             (XLOGD_DEBUG (Log_Rejected (INST_NAME s0) (mStateName (tbl (mStInfo p)))
                             (mID ev) (mData ev))
                (s0\<lparr>app := snd (mEntry (tbl (mStInfo p)) ev ACT_GUARD (app s0)),
                     calls := calls s0 @ [(mStInfo p, ACT_GUARD, ev)]\<rparr>))"
proof -
  obtain b1 w where m: "mEntry (tbl (mStInfo p)) ev ACT_GUARD (app s0) = (b1, w)" by force
  with assms(3) have nb: "\<not> b1" by simp
  have c: "call_entry tbl (mStInfo p) ev ACT_GUARD s0 =
             (False, s0\<lparr>app := w, calls := calls s0 @ [(mStInfo p, ACT_GUARD, ev)]\<rparr>)"
    using m nb by (simp add: call_entry_def)
  show ?thesis using assms(1,2) c m by (simp add: Let_def INST_NAME_def)
qed


text \<open>
  C5. Let the scan reach an entry \<open>g\<close> of the current state's array that matches the event
  and whose target is the current state: the scan of the entries \<open>pre\<close> before it used
  nothing (they do not match, or their guards rejected) and ended in \<open>s1\<close>. Then the event
  is consumed, the instance is unchanged (so is its current state), and the only call after
  those of \<open>pre\<close> is the current state's entry point with \<open>ACT_INTERNAL\<close>, which is run
  once on the application state of \<open>s1\<close>: the application state afterwards is the one this
  entry point returns. Among the calls of the whole scan there is this one \<open>ACT_INTERNAL\<close>
  call, no \<open>ACT_EXIT\<close> and no \<open>ACT_ENTER\<close>; the one line printed after those of \<open>pre\<close> is
  the \<^verbatim>\<open>internal\<close> line. The entries after \<open>g\<close> are not looked at: the result is that of
  the array cut after \<open>g\<close>.
\<close>

theorem self_loop_is_internal:
  assumes "mpNextStates (tbl (pCurrState (sm s))) = pre @ g # post"
    and "scan_next_states tbl ev pre s = (False, s1)"
    and "tStateGuard.mID g = mID ev" and "mStInfo g = pCurrState (sm s)"
    and "u_SmProcessEvent tbl ev s = (b, s')"
  shows "b \<and> sm s' = sm s \<and>
         calls s' = calls s1 @ [(pCurrState (sm s), ACT_INTERNAL, ev)] \<and>
         app s' = snd (mEntry (tbl (pCurrState (sm s))) ev ACT_INTERNAL (app s1)) \<and>
         out s' = out s1 @ [(LOG_DEBUG, Log_Internal (INST_NAME s) (ST_NAME tbl s) (mID ev) (mData ev))] \<and>
         filter (\<lambda>c. fst (snd c) = ACT_INTERNAL) (calls_since s s')
           = [(pCurrState (sm s), ACT_INTERNAL, ev)] \<and>
         filter (\<lambda>c. fst (snd c) = ACT_EXIT \<or> fst (snd c) = ACT_ENTER) (calls_since s s') = [] \<and>
         u_SmProcessEvent tbl ev s = scan_next_states tbl ev (pre @ [g]) s"
proof -
  from scan_unused [OF assms(2)] obtain cs where sm1: "sm s1 = sm s"
    and cl1: "calls s1 = calls s @ cs" and g: "\<forall>c \<in> set cs. fst (snd c) = ACT_GUARD"
    by blast
  from assms(1,5) have "scan_next_states tbl ev (pre @ g # post) s = (b, s')"
    by (simp add: u_SmProcessEvent_def)
  then have r: "scan_next_states tbl ev (g # post) s1 = (b, s')"
    by (simp add: scan_append [OF assms(2)])
  have n1: "mStInfo g = pCurrState (sm s1)" using assms(4) sm1 by simp
  from scan_internal [OF assms(3) n1 r] sm1
  have b: "b" and sm': "sm s' = sm s"
    and cl': "calls s' = calls s1 @ [(pCurrState (sm s), ACT_INTERNAL, ev)]"
    and ap: "app s' = snd (mEntry (tbl (pCurrState (sm s))) ev ACT_INTERNAL (app s1))"
    by simp_all
  let ?s2 = "XLOGD_DEBUG (Log_Internal (INST_NAME s1) (ST_NAME tbl s1) (mID ev) (mData ev)) s1"
  obtain r2 s3 where c: "call_entry tbl (mStInfo g) ev ACT_INTERNAL ?s2 = (r2, s3)" by force
  have "scan_next_states tbl ev (g # post) s1 = (True, s3)"
    using assms(3) n1 c by (simp add: Let_def)
  with r have "s' = s3" by simp
  with call_entry_out [OF c] have
    "out s' = out s1 @ [(LOG_DEBUG, Log_Internal (INST_NAME s1) (ST_NAME tbl s1) (mID ev) (mData ev))]"
    by simp
  then have ou: "out s' = out s1 @
      [(LOG_DEBUG, Log_Internal (INST_NAME s) (ST_NAME tbl s) (mID ev) (mData ev))]"
    by (simp add: INST_NAME_def ST_NAME_def sm1)
  have cs: "calls_since s s' = cs @ [(pCurrState (sm s), ACT_INTERNAL, ev)]"
    by (simp add: calls_since_def cl' cl1)
  have f0: "filter (\<lambda>c. fst (snd c) = ACT_INTERNAL) cs = []"
    "filter (\<lambda>c. fst (snd c) = ACT_EXIT \<or> fst (snd c) = ACT_ENTER) cs = []"
    using g by (auto simp: filter_empty_conv)
  have same: "scan_next_states tbl ev (g # post) s1 = scan_next_states tbl ev [g] s1"
    using assms(3,4) sm1 by (simp add: Let_def split: prod.splits)
  have stop: "u_SmProcessEvent tbl ev s = scan_next_states tbl ev (pre @ [g]) s"
    using assms(1) same by (simp add: u_SmProcessEvent_def scan_append [OF assms(2)])
  from b sm' cl' ap ou cs f0 stop show ?thesis by simp
qed

lemma ex_in_A_facts:
  "sm ex_in_A = \<lparr>mInstanceName = ''sm'', pCurrState = 0,
             activeEvtQueue = \<lparr>mQHead = 0, mQTail = 0, mQCount = 0, mQSize = 4,
                                mpQData = replicate 4 \<lparr>mID = 0, mData = 0\<rparr>\<rparr>,
             deferredEvtQueue = \<lparr>mQHead = 0, mQTail = 0, mQCount = 0, mQSize = 4,
                                  mpQData = replicate 4 \<lparr>mID = 0, mData = 0\<rparr>\<rparr>,
             bInitFinished = True\<rparr>"
  "app ex_in_A = 0" "calls ex_in_A = []" "out ex_in_A = [(LOG_INFO, Log_Init ''sm'' ''A'')]"
  by (simp_all add: ex_in_A_def SmInit_def ex_machine_def ex_tbl_def Let_def INST_NAME_def ST_NAME_def)

lemma ex_in_A_reject_2:
  "scan_next_states ex_tbl \<lparr>mID = 2, mData = 22\<rparr> [\<lparr>tStateGuard.mID = 2, mStInfo = 4\<rparr>] ex_in_A =
   (False, XLOGD_DEBUG (Log_Rejected ''sm'' ''R'' 2 22)
             (ex_in_A\<lparr>app := 1, calls := [(4, ACT_GUARD, \<lparr>mID = 2, mData = 22\<rparr>)]\<rparr>))"
  by (simp add: ex_in_A_facts ex_tbl_def call_entry_def ex_reject_def Let_def INST_NAME_def)


lemma ex_in_A_reject_5:
  "scan_next_states ex_tbl \<lparr>mID = 5, mData = 55\<rparr>
     [\<lparr>tStateGuard.mID = 2, mStInfo = 4\<rparr>, \<lparr>tStateGuard.mID = 2, mStInfo = 2\<rparr>,
      \<lparr>tStateGuard.mID = 1, mStInfo = 1\<rparr>, \<lparr>tStateGuard.mID = 5, mStInfo = 4\<rparr>] ex_in_A =
   (False, XLOGD_DEBUG (Log_Rejected ''sm'' ''R'' 5 55)
             (ex_in_A\<lparr>app := 1, calls := [(4, ACT_GUARD, \<lparr>mID = 5, mData = 55\<rparr>)]\<rparr>))"
  by (simp add: ex_in_A_facts ex_tbl_def call_entry_def ex_reject_def Let_def INST_NAME_def)

theorem self_loop_is_internal_witness:
  "scan_next_states ex_tbl \<lparr>mID = 5, mData = 55\<rparr>
     [\<lparr>tStateGuard.mID = 2, mStInfo = 4\<rparr>, \<lparr>tStateGuard.mID = 2, mStInfo = 2\<rparr>,
      \<lparr>tStateGuard.mID = 1, mStInfo = 1\<rparr>, \<lparr>tStateGuard.mID = 5, mStInfo = 4\<rparr>] ex_in_A =
   (False, XLOGD_DEBUG (Log_Rejected ''sm'' ''R'' 5 55)
             (ex_in_A\<lparr>app := 1, calls := [(4, ACT_GUARD, \<lparr>mID = 5, mData = 55\<rparr>)]\<rparr>)) \<and>
   fst (u_SmProcessEvent ex_tbl \<lparr>mID = 5, mData = 55\<rparr> ex_in_A) \<and>
   sm (snd (u_SmProcessEvent ex_tbl \<lparr>mID = 5, mData = 55\<rparr> ex_in_A)) = sm ex_in_A \<and>
   calls (snd (u_SmProcessEvent ex_tbl \<lparr>mID = 5, mData = 55\<rparr> ex_in_A)) =
     [(4, ACT_GUARD, \<lparr>mID = 5, mData = 55\<rparr>), (0, ACT_INTERNAL, \<lparr>mID = 5, mData = 55\<rparr>)] \<and>
   app (snd (u_SmProcessEvent ex_tbl \<lparr>mID = 5, mData = 55\<rparr> ex_in_A)) = 2"
proof -
  let ?ev = "\<lparr>mID = 5, mData = 55\<rparr>"
  let ?pre = "[\<lparr>tStateGuard.mID = 2, mStInfo = 4::nat\<rparr>, \<lparr>tStateGuard.mID = 2, mStInfo = 2\<rparr>,
      \<lparr>tStateGuard.mID = 1, mStInfo = 1\<rparr>, \<lparr>tStateGuard.mID = 5, mStInfo = 4\<rparr>]"
  let ?g = "\<lparr>tStateGuard.mID = 5, mStInfo = 0::nat\<rparr>"
  let ?s1 = "XLOGD_DEBUG (Log_Rejected ''sm'' ''R'' 5 55)
             (ex_in_A\<lparr>app := 1, calls := [(4, ACT_GUARD, ?ev)]\<rparr>)"
  let ?P = "u_SmProcessEvent ex_tbl ?ev ex_in_A"
  have e: "mpNextStates (ex_tbl (pCurrState (sm ex_in_A))) = ?pre @ ?g # []"
    by (simp add: ex_in_A_facts ex_tbl_def)
  have m: "tStateGuard.mID ?g = mID ?ev" by simp
  have n: "mStInfo ?g = pCurrState (sm ex_in_A)" by (simp add: ex_in_A_facts)
  have p: "?P = (fst ?P, snd ?P)" by simp
  have c1: "calls ?s1 @ [(pCurrState (sm ex_in_A), ACT_INTERNAL, ?ev)] =
            [(4, ACT_GUARD, ?ev), (0, ACT_INTERNAL, ?ev)]"
    by (simp add: ex_in_A_facts)
  have a1: "snd (mEntry (ex_tbl (pCurrState (sm ex_in_A))) ?ev ACT_INTERNAL (app ?s1)) = 2"
    by (simp add: ex_in_A_facts ex_tbl_def ex_accept_def)
  from self_loop_is_internal [OF e ex_in_A_reject_5 m n p]
  have "fst ?P" and "sm (snd ?P) = sm ex_in_A"
    and "calls (snd ?P) = [(4, ACT_GUARD, ?ev), (0, ACT_INTERNAL, ?ev)]"
    and "app (snd ?P) = 2"
    unfolding c1 a1 by blast+
  with ex_in_A_reject_5 show ?thesis by blast
qed

section \<open>The deferred pass\<close>

lemma dq_def_ids_append [simp]: "dq_def_ids (a @ b) = dq_def_ids a @ dq_def_ids b"
  by (induction a rule: dq_def_ids.induct) simp_all

lemma scan_dq_ids:
  "scan_next_states tbl ev gs s = (b, s') \<Longrightarrow> dq_def_ids (out s') = dq_def_ids (out s)"
proof (induction gs arbitrary: s)
  case Nil
  then show ?case by simp
next
  case (Cons g gs)
  show ?case
  proof (cases "tStateGuard.mID g = mID ev")
    case False
    with Cons show ?thesis by simp
  next
    case True
    note m = True
    show ?thesis
    proof (cases "pCurrState (sm s) = mStInfo g")
      case True
      with m Cons.prems show ?thesis
        by (auto simp: Let_def split: prod.splits dest!: call_entry_out)
    next
      case False
      obtain b1 s1 where c: "call_entry tbl (mStInfo g) ev ACT_GUARD s = (b1, s1)" by force
      have o1: "out s1 = out s" using c by (rule call_entry_out)
      show ?thesis
      proof (cases b1)
        case True
        with m False c Cons.prems o1 show ?thesis
          by (auto simp: Let_def split: prod.splits dest!: call_entry_out)
      next
        case nb: False
        let ?s2 = "XLOGD_DEBUG (Log_Rejected (INST_NAME s1) (mStateName (tbl (mStInfo g)))
                                (mID ev) (mData ev)) s1"
        from m False c nb Cons.prems have "scan_next_states tbl ev gs ?s2 = (b, s')"
          by (simp add: Let_def)
        from Cons.IH [OF this] o1 show ?thesis by simp
      qed
    qed
  qed
qed

lemma process_dq_ids:
  "u_SmProcessEvent tbl ev s = (b, s') \<Longrightarrow> dq_def_ids (out s') = dq_def_ids (out s)"
  unfolding u_SmProcessEvent_def by (rule scan_dq_ids)

lemma defer_dq_ids [simp]: "dq_def_ids (out (u_SmDeferEvent tbl ev s)) = dq_def_ids (out s)"
  by (simp add: u_SmDeferEvent_def u_SmEnqueueDeferredEvent_def Let_def)

lemma deferred_loop_None:
  "u_SmDequeueDeferredEvent s = (None, s1) \<Longrightarrow>
     u_SmProcessDeferredEvents_loop tbl m i c s = (i, c, s1)"
  by (subst u_SmProcessDeferredEvents_loop.simps) simp

lemma deferred_loop_Some:
  "u_SmDequeueDeferredEvent s = (Some ev, s1) \<Longrightarrow> u_SmProcessEvent tbl ev s1 = (b, s2) \<Longrightarrow>
   u_SmProcessDeferredEvents_loop tbl m i c s =
     (if i + 1 < m
      then u_SmProcessDeferredEvents_loop tbl m (i + 1) (if b then c + 1 else c)
             (if b then s2 else u_SmDeferEvent tbl ev s2)
      else (i + 1, if b then c + 1 else c, if b then s2 else u_SmDeferEvent tbl ev s2))"
  by (subst u_SmProcessDeferredEvents_loop.simps) (cases b; simp)

lemma dequeue_deferred_None:
  "u_SmDequeueDeferredEvent s = (None, s1) \<Longrightarrow> s1 = s \<and> mQCount (deferredEvtQueue (sm s)) = 0"
  by (auto simp: u_SmDequeueDeferredEvent_def u_SmDequeueEvent_def u_SmQEmpty_def Let_def
      split: if_splits prod.splits option.splits)

lemma dequeue_deferred_Some:
  "u_SmDequeueDeferredEvent s = (Some ev, s1) \<Longrightarrow>
     \<exists>q. u_SmDequeueEvent (deferredEvtQueue (sm s)) = (Some ev, q) \<and>
         sm s1 = (sm s)\<lparr>deferredEvtQueue := q\<rparr> \<and> app s1 = app s \<and> calls s1 = calls s \<and>
         out s1 = out s @ [(LOG_DEBUG, Log_DqDef (INST_NAME s) (mID ev) (mQCount q))]"
  by (auto simp: u_SmDequeueDeferredEvent_def split: prod.splits option.splits)

text \<open>The bound on \<open>idx\<close>, whatever the queue looks like.\<close>

lemma deferred_loop_idx:
  "u_SmProcessDeferredEvents_loop tbl m i c s = (idx, c', s') \<Longrightarrow>
     i \<le> idx \<and> idx \<le> max m (i + 1) \<and> c \<le> c' \<and> c' - c \<le> idx - i"
proof (induction "nat (m - i)" arbitrary: i c s rule: less_induct)
  case less
  obtain o1 s1 where d: "u_SmDequeueDeferredEvent s = (o1, s1)" by force
  show ?case
  proof (cases o1)
    case None
    with d less.prems show ?thesis by (simp add: deferred_loop_None)
  next
    case (Some ev)
    obtain b s2 where p: "u_SmProcessEvent tbl ev s1 = (b, s2)" by force
    note u = deferred_loop_Some [OF d [unfolded Some] p, of m i c]
    show ?thesis
    proof (cases "i + 1 < m")
      case True
      with u less.prems have r: "u_SmProcessDeferredEvents_loop tbl m (i + 1) (if b then c + 1 else c)
             (if b then s2 else u_SmDeferEvent tbl ev s2) = (idx, c', s')" by simp
      have "nat (m - (i + 1)) < nat (m - i)" using True by simp
      from less.hyps [OF this r] True show ?thesis by (auto split: if_splits)
    next
      case False
      with u less.prems show ?thesis by (auto split: if_splits)
    qed
  qed
qed


lemma defer_contents:
  assumes "queue_inv (deferredEvtQueue (sm s))"
  shows "queue_inv (deferredEvtQueue (sm (u_SmDeferEvent tbl ev s))) \<and>
         (\<exists>r. q_contents (deferredEvtQueue (sm (u_SmDeferEvent tbl ev s))) =
                q_contents (deferredEvtQueue (sm s)) @ r)"
proof (cases "mID ev \<in> set (mpDeferEvtIDs (tbl (pCurrState (sm s)))) \<and>
              \<not> u_SmQFull (deferredEvtQueue (sm s))")
  case True
  then show ?thesis
    using enqueue_inv [OF assms, of "mID ev" "mData ev"]
      enqueue_contents [OF assms, of "mID ev" "mData ev"]
    by (simp add: defer_sm)
next
  case False
  then have "deferredEvtQueue (sm (u_SmDeferEvent tbl ev s)) = deferredEvtQueue (sm s)"
    by (auto simp: defer_sm enqueue_full)
  with assms show ?thesis by simp
qed

lemma deferred_loop_replays_once:
  assumes "queue_inv (deferredEvtQueue (sm s))"
    and "q_contents (deferredEvtQueue (sm s)) = rest @ redef"
    and "int (length rest) = m - i"
    and "rest = [] \<longrightarrow> redef = []"
    and "u_SmProcessDeferredEvents_loop tbl m i c s = (idx, c', s')"
  shows "idx = m \<and> dq_def_ids (out s') = dq_def_ids (out s) @ map mID rest \<and>
         queue_inv (deferredEvtQueue (sm s'))"
  using assms
proof (induction rest arbitrary: s i c redef)
  case Nil
  then have "mQCount (deferredEvtQueue (sm s)) = 0"
    by (simp add: q_contents_def unat_eq_zero)
  then have "u_SmDequeueDeferredEvent s = (None, s)"
    by (simp add: u_SmDequeueDeferredEvent_def dequeue_empty)
  with Nil.prems show ?case by (simp add: deferred_loop_None)
next
  case (Cons e rest)
  let ?dq = "deferredEvtQueue (sm s)"
  from Cons.prems(2) have "mQCount ?dq \<noteq> 0"
    by (auto simp: q_contents_def)
  then obtain ev q where dq: "u_SmDequeueEvent ?dq = (Some ev, q)"
    using dequeue_nonempty by blast
  let ?s1 = "XLOGD_DEBUG (Log_DqDef (INST_NAME s) (mID ev) (mQCount q))
               (s\<lparr>sm := (sm s)\<lparr>deferredEvtQueue := q\<rparr>\<rparr>)"
  have d: "u_SmDequeueDeferredEvent s = (Some ev, ?s1)"
    using dq by (simp add: u_SmDequeueDeferredEvent_def)
  from dequeue_contents [OF Cons.prems(1) dq] Cons.prems(2)
  have ev: "ev = e" and cq: "q_contents q = rest @ redef" by simp_all
  have invq: "queue_inv q" using Cons.prems(1) dq by (rule dequeue_inv)
  obtain b s2 where p: "u_SmProcessEvent tbl ev ?s1 = (b, s2)" by force
  have q2: "deferredEvtQueue (sm s2) = q" using process_event_queues [OF p] by simp
  have o2: "dq_def_ids (out s2) = dq_def_ids (out s) @ [mID e]"
    using process_dq_ids [OF p] by (simp add: ev)
  define s3 where "s3 = (if b then s2 else u_SmDeferEvent tbl ev s2)"
  define c3 where "c3 = (if b then c + 1 else c)"
  have inv3: "queue_inv (deferredEvtQueue (sm s3))"
    using defer_contents [of s2 tbl ev] invq q2 by (simp add: s3_def)
  have "\<exists>r. q_contents (deferredEvtQueue (sm s3)) = rest @ (redef @ r)"
  proof (cases b)
    case True
    then show ?thesis using q2 cq by (simp add: s3_def)
  next
    case False
    then show ?thesis using defer_contents [of s2 tbl ev] invq q2 cq by (auto simp: s3_def)
  qed
  then obtain r where c3q: "q_contents (deferredEvtQueue (sm s3)) = rest @ (redef @ r)" ..
  have o3: "dq_def_ids (out s3) = dq_def_ids (out s) @ [mID e]"
    using o2 by (simp add: s3_def)
  note u = deferred_loop_Some [OF d p, of m i c, folded s3_def c3_def]
  show ?case
  proof (cases "i + 1 < m")
    case True
    with u Cons.prems(5) have run: "u_SmProcessDeferredEvents_loop tbl m (i + 1) c3 s3 = (idx, c', s')"
      by simp
    have len: "int (length rest) = m - (i + 1)" using Cons.prems(3) by simp
    with True have ne: "rest = [] \<longrightarrow> redef @ r = []" by auto
    from Cons.IH [OF inv3 c3q len ne run] o3 show ?thesis by simp
  next
    case False
    have l: "int (length (e # rest)) = 1 + int (length rest)" by simp
    from False Cons.prems(3) [unfolded l] have "length rest = 0" by linarith
    then have "rest = []" by simp
    with False Cons.prems(3) have "i + 1 = m" "rest = []" by simp_all
    with u Cons.prems(5) False inv3 o3 show ?thesis by simp
  qed
qed


text \<open>
  C4. Let \<open>M\<close> be the count of the deferred queue when \<^verbatim>\<open>_SmProcessDeferredEvents\<close>
  starts, and run its loop (a total function: the pass terminates). The number \<open>idx\<close> of
  events it dequeues and processes is at most \<open>M\<close>, and at most \<open>idx\<close> of them are
  consumed, whatever is deferred again on the way. When the deferred queue satisfies the
  queue invariant, the pass dequeues exactly the \<open>M\<close> events that the queue held at the
  start, each once and in their order: an event deferred again during the pass is behind
  them and is not dequeued a second time.
\<close>

theorem deferred_pass_bounded:
  assumes "u_SmProcessDeferredEvents_loop tbl (uint (mQCount (deferredEvtQueue (sm s)))) 0 0 s
             = (idx, consumed, s')"
  shows "0 \<le> idx \<and> idx \<le> uint (mQCount (deferredEvtQueue (sm s))) \<and>
         0 \<le> consumed \<and> consumed \<le> idx \<and>
         u_SmProcessDeferredEvents tbl s = (consumed \<noteq> 0, s') \<and>
         (queue_inv (deferredEvtQueue (sm s)) \<longrightarrow>
            idx = uint (mQCount (deferredEvtQueue (sm s))) \<and>
            dq_def_ids (out s') =
              dq_def_ids (out s) @ map mID (q_contents (deferredEvtQueue (sm s))))"
proof -
  let ?M = "uint (mQCount (deferredEvtQueue (sm s)))"
  note b = deferred_loop_idx [OF assms]
  have le: "idx \<le> ?M"
  proof (cases "mQCount (deferredEvtQueue (sm s)) = 0")
    case True
    then have "u_SmDequeueDeferredEvent s = (None, s)"
      by (simp add: u_SmDequeueDeferredEvent_def dequeue_empty)
    from deferred_loop_None [OF this, of tbl ?M 0 0] assms True show ?thesis by simp
  next
    case False
    then have "?M \<noteq> 0" by (simp add: uint_0_iff)
    moreover have "0 \<le> ?M" by simp
    ultimately have "1 \<le> ?M" by linarith
    with b show ?thesis by simp
  qed
  have p: "u_SmProcessDeferredEvents tbl s = (consumed \<noteq> 0, s')"
    using assms by (simp add: u_SmProcessDeferredEvents_def)
  have r: "idx = ?M \<and> dq_def_ids (out s') =
              dq_def_ids (out s) @ map mID (q_contents (deferredEvtQueue (sm s)))"
    if inv: "queue_inv (deferredEvtQueue (sm s))"
  proof -
    have l: "int (length (q_contents (deferredEvtQueue (sm s)))) = ?M - 0" by simp
    have c: "q_contents (deferredEvtQueue (sm s)) = q_contents (deferredEvtQueue (sm s)) @ []"
      by simp
    from deferred_loop_replays_once [OF inv c l _ assms] show ?thesis by simp
  qed
  from b le p r show ?thesis by simp
qed

lemma ex_before_replay_facts:
  "pCurrState (sm ex_before_replay) = 1"
  "mQCount (deferredEvtQueue (sm ex_before_replay)) = 2"
  "queue_inv (deferredEvtQueue (sm ex_before_replay))"
  "q_contents (deferredEvtQueue (sm ex_before_replay)) = [\<lparr>mID = 3, mData = 33\<rparr>, \<lparr>mID = 4, mData = 44\<rparr>]"
  by code_simp+

lemma ex_replay:
  "fst (u_SmProcessDeferredEvents_loop ex_tbl 2 0 0 ex_before_replay) = 2"
  "fst (snd (u_SmProcessDeferredEvents_loop ex_tbl 2 0 0 ex_before_replay)) = 1"
  "pCurrState (sm (snd (snd (u_SmProcessDeferredEvents_loop ex_tbl 2 0 0 ex_before_replay)))) = 2"
  "q_contents (deferredEvtQueue (sm (snd (snd
      (u_SmProcessDeferredEvents_loop ex_tbl 2 0 0 ex_before_replay))))) = [\<lparr>mID = 3, mData = 33\<rparr>]"
  by code_simp+

theorem deferred_pass_bounded_witness:
  "uint (mQCount (deferredEvtQueue (sm ex_before_replay))) = 2 \<and>
   queue_inv (deferredEvtQueue (sm ex_before_replay)) \<and>
   fst (u_SmProcessDeferredEvents_loop ex_tbl 2 0 0 ex_before_replay) = 2 \<and>
   fst (snd (u_SmProcessDeferredEvents_loop ex_tbl 2 0 0 ex_before_replay)) = 1 \<and>
   dq_def_ids (out (snd (snd (u_SmProcessDeferredEvents_loop ex_tbl 2 0 0 ex_before_replay)))) =
     dq_def_ids (out ex_before_replay) @ [3, 4] \<and>
   q_contents (deferredEvtQueue (sm (snd (snd
      (u_SmProcessDeferredEvents_loop ex_tbl 2 0 0 ex_before_replay))))) = [\<lparr>mID = 3, mData = 33\<rparr>]"
proof -
  let ?L = "u_SmProcessDeferredEvents_loop ex_tbl 2 0 0 ex_before_replay"
  have m: "uint (mQCount (deferredEvtQueue (sm ex_before_replay))) = 2"
    by (simp add: ex_before_replay_facts)
  have p: "u_SmProcessDeferredEvents_loop ex_tbl
             (uint (mQCount (deferredEvtQueue (sm ex_before_replay)))) 0 0 ex_before_replay =
           (fst ?L, fst (snd ?L), snd (snd ?L))"
    by (simp add: m)
  from deferred_pass_bounded [OF p] ex_before_replay_facts(3)
  have "dq_def_ids (out (snd (snd ?L))) =
          dq_def_ids (out ex_before_replay) @
          map mID (q_contents (deferredEvtQueue (sm ex_before_replay)))"
    by blast
  then have "dq_def_ids (out (snd (snd ?L))) = dq_def_ids (out ex_before_replay) @ [3, 4]"
    by (simp add: ex_before_replay_facts)
  with m ex_before_replay_facts(3) ex_replay show ?thesis by simp
qed

section \<open>The engine\<close>

declare u_SmEngine_loop.simps [simp del]

text \<open>With an empty active queue the loop of the engine is one idle cycle.\<close>

lemma engine_loop_idle:
  "mQCount (activeEvtQueue (sm s)) = 0 \<Longrightarrow> u_SmEngine_loop tbl s = s"
  by (subst u_SmEngine_loop.simps) (simp add: active_pass_empty)

lemma engine_loop_shape:
  assumes "u_SmProcessActiveEvents tbl s = (bAct, s1)"
  shows "u_SmEngine_loop tbl s =
           (if bAct \<and> 0 \<noteq> mQCount (deferredEvtQueue (sm s1))
            then snd (u_SmProcessDeferredEvents tbl s1) else s1)"
proof (cases "bAct \<and> 0 \<noteq> mQCount (deferredEvtQueue (sm s1))")
  case False
  with assms show ?thesis by (subst u_SmEngine_loop.simps) auto
next
  case True
  obtain bDef s2 where d: "u_SmProcessDeferredEvents tbl s1 = (bDef, s2)" by force
  have "mQCount (activeEvtQueue (sm s2)) = 0"
    using deferred_pass_active [OF d] active_pass_drains [OF assms] by simp
  then have "u_SmEngine_loop tbl s2 = s2" by (rule engine_loop_idle)
  with assms True d show ?thesis by (subst u_SmEngine_loop.simps) auto
qed

text \<open>
  C1, as the code has it. The loop of \<^verbatim>\<open>_SmEngine\<close> repeats its cycle exactly when the
  deferred replay of the cycle ran and consumed an event. In a cycle the replay runs only
  when the active pass of that cycle has consumed an event and the deferred queue is not
  empty. No entry point enqueues (they do not reach the instance), so the repeated cycle
  finds the active queue empty: its active pass returns \<^verbatim>\<open>FALSE\<close> and changes nothing, no
  second replay runs and the loop ends. One call is therefore one active pass and at most
  one deferred replay, followed by the line the engine prints on exit; what is still
  deferred then stays in the deferred queue.
\<close>

theorem engine_replays_at_most_once:
  assumes "u_SmProcessActiveEvents tbl s = (bAct, s1)"
    and "s' = (if bAct \<and> 0 \<noteq> mQCount (deferredEvtQueue (sm s1))
               then snd (u_SmProcessDeferredEvents tbl s1) else s1)"
  shows "u_SmEngine_loop tbl s =
           (if bAct \<and> 0 \<noteq> mQCount (deferredEvtQueue (sm s1)) \<and>
               fst (u_SmProcessDeferredEvents tbl s1)
            then u_SmEngine_loop tbl s' else s') \<and>
         u_SmProcessActiveEvents tbl s' = (False, s') \<and>
         u_SmEngine_loop tbl s' = s' \<and>
         SmProcessEvents tbl s =
           XLOGD_DEBUG (Log_EngineExit (INST_NAME s') (mQCount (activeEvtQueue (sm s')))
                          (mQCount (deferredEvtQueue (sm s')))) s'"
proof -
  have e: "u_SmEngine_loop tbl s = s'" using engine_loop_shape [OF assms(1)] assms(2) by simp
  have z: "mQCount (activeEvtQueue (sm s')) = 0"
  proof (cases "bAct \<and> 0 \<noteq> mQCount (deferredEvtQueue (sm s1))")
    case True
    obtain bDef s2 where d: "u_SmProcessDeferredEvents tbl s1 = (bDef, s2)" by force
    from True assms(2) d have "s' = s2" by simp
    with deferred_pass_active [OF d] active_pass_drains [OF assms(1)]
    show ?thesis by simp
  next
    case False
    then have "s' = s1" using assms(2) by (simp only: if_False)
    with active_pass_drains [OF assms(1)] show ?thesis by simp
  qed
  note i = engine_loop_idle [OF z, of tbl]
  have u: "u_SmEngine_loop tbl s =
           (if bAct \<and> 0 \<noteq> mQCount (deferredEvtQueue (sm s1)) \<and>
               fst (u_SmProcessDeferredEvents tbl s1)
            then u_SmEngine_loop tbl s' else s')"
    by (simp only: i e if_cancel)
  have x: "SmProcessEvents tbl s =
           XLOGD_DEBUG (Log_EngineExit (INST_NAME s') (mQCount (activeEvtQueue (sm s')))
                          (mQCount (deferredEvtQueue (sm s')))) s'"
    by (simp add: SmProcessEvents_def u_SmEngine_def Let_def e)
  from u active_pass_empty [OF z] i x show ?thesis by blast
qed

lemma ex_three_active: "u_SmProcessActiveEvents ex_tbl ex_three = (True, ex_before_replay)"
proof -
  have "fst (u_SmProcessActiveEvents ex_tbl ex_three)" by code_simp
  moreover have "snd (u_SmProcessActiveEvents ex_tbl ex_three) = ex_before_replay"
    by (simp add: ex_before_replay_def ex_three_def)
  ultimately show ?thesis by (metis prod.collapse)
qed

lemma ex_after_replay_facts:
  "fst (u_SmProcessDeferredEvents ex_tbl ex_before_replay)"
  "mQCount (deferredEvtQueue (sm ex_after_replay)) = 1"
  "mQCount (activeEvtQueue (sm ex_after_replay)) = 0"
  "pCurrState (sm ex_after_replay) = 2"
  "q_contents (deferredEvtQueue (sm ex_after_replay)) = [\<lparr>mID = 3, mData = 33\<rparr>]"
  "dq_def_ids (out ex_after_replay) = [3, 4]"
  "INST_NAME ex_after_replay = ''sm''"
  by code_simp+

theorem engine_replays_at_most_once_witness:
  "u_SmProcessActiveEvents ex_tbl ex_three = (True, ex_before_replay) \<and>
   0 \<noteq> mQCount (deferredEvtQueue (sm ex_before_replay)) \<and>
   fst (u_SmProcessDeferredEvents ex_tbl ex_before_replay) \<and>
   u_SmProcessActiveEvents ex_tbl ex_after_replay = (False, ex_after_replay) \<and>
   SmProcessEvents ex_tbl ex_three = XLOGD_DEBUG (Log_EngineExit ''sm'' 0 1) ex_after_replay"
proof -
  have c: "0 \<noteq> mQCount (deferredEvtQueue (sm ex_before_replay))"
    by (simp add: ex_before_replay_facts)
  have s': "ex_after_replay =
      (if True \<and> 0 \<noteq> mQCount (deferredEvtQueue (sm ex_before_replay))
       then snd (u_SmProcessDeferredEvents ex_tbl ex_before_replay) else ex_before_replay)"
    using c by (simp add: ex_after_replay_def)
  note t = engine_replays_at_most_once [OF ex_three_active s', unfolded ex_after_replay_facts]
  from t ex_three_active c ex_after_replay_facts(1) show ?thesis by blast
qed

text \<open>
  C1 as the specification states it fails. After \<^verbatim>\<open>SmInit\<close> in A and the events 3, 4, 1,
  one call runs the active pass (3 and 4 are deferred, 1 takes A to B) and one deferred
  replay, which defers 3 again under B and consumes 4 (B to C). The replay has consumed an
  event and the deferred queue still holds 3, which C would take to D; the call returns
  there, in C, after two deferred dequeues. A further replay, had there been one, would
  have consumed 3 and ended in D.
\<close>

theorem engine_second_replay_counterexample:
  "fst (u_SmProcessActiveEvents ex_tbl ex_three) \<and>
   fst (u_SmProcessDeferredEvents ex_tbl (snd (u_SmProcessActiveEvents ex_tbl ex_three))) \<and>
   q_contents (deferredEvtQueue (sm ex_after_replay)) = [\<lparr>mID = 3, mData = 33\<rparr>] \<and>
   sm (SmProcessEvents ex_tbl ex_three) = sm ex_after_replay \<and>
   pCurrState (sm (SmProcessEvents ex_tbl ex_three)) = 2 \<and>
   dq_def_ids (out (SmProcessEvents ex_tbl ex_three)) = [3, 4] \<and>
   fst (u_SmProcessDeferredEvents ex_tbl ex_after_replay) \<and>
   pCurrState (sm (snd (u_SmProcessDeferredEvents ex_tbl ex_after_replay))) = 3 \<and>
   sm (SmProcessEvents ex_tbl ex_three) \<noteq> sm (snd (u_SmProcessDeferredEvents ex_tbl ex_after_replay))"
  by code_simp

section \<open>A deferred event replayed in the call that deferred it\<close>

lemma cfg_XLOGD [simp]:
  "in_config na nd (XLOGD_DEBUG m s) cur acts defs = in_config na nd s cur acts defs"
  "in_config na nd (XLOGD_ERROR m s) cur acts defs = in_config na nd s cur acts defs"
  by (simp_all add: in_config_def)

lemma cfg_sm: "sm s' = sm s \<Longrightarrow> in_config na nd s cur acts defs \<Longrightarrow> in_config na nd s' cur acts defs"
  by (simp add: in_config_def)

lemma not_full_if_room: "length (q_contents q) < unat (mQSize q) \<Longrightarrow> \<not> u_SmQFull q"
  by (auto simp: u_SmQFull_def)

lemma cfg_init:
  assumes "0 < mQSize (activeEvtQueue (sm s0))"
    and "unat (mQSize (activeEvtQueue (sm s0))) \<le> length (mpQData (activeEvtQueue (sm s0)))"
    and "0 < mQSize (deferredEvtQueue (sm s0))"
    and "unat (mQSize (deferredEvtQueue (sm s0))) \<le> length (mpQData (deferredEvtQueue (sm s0)))"
  shows "in_config (unat (mQSize (activeEvtQueue (sm s0)))) (unat (mQSize (deferredEvtQueue (sm s0))))
           (SmInit tbl A s0) A [] [] \<and> bInitFinished (sm (SmInit tbl A s0))"
proof -
  have a: "activeEvtQueue (sm (SmInit tbl A s0)) = queue_reset (activeEvtQueue (sm s0))"
    and d: "deferredEvtQueue (sm (SmInit tbl A s0)) = queue_reset (deferredEvtQueue (sm s0))"
    and c: "pCurrState (sm (SmInit tbl A s0)) = A" and i: "bInitFinished (sm (SmInit tbl A s0))"
    by (simp_all add: SmInit_def Let_def queue_reset_def)
  have sz: "mQSize (queue_reset q) = mQSize q" for q by (simp add: queue_reset_def)
  show ?thesis
    using queue_reset_inv [OF assms(1,2)] queue_reset_inv [OF assms(3,4)]
    by (simp add: in_config_def a d c i sz)
qed


lemma cfg_enqueue:
  assumes "in_config na nd s cur acts defs" and "bInitFinished (sm s)" and "length acts < na"
  shows "in_config na nd (SmEnqueueEvent i d s) cur (acts @ [\<lparr>mID = i, mData = d\<rparr>]) defs \<and>
         bInitFinished (sm (SmEnqueueEvent i d s))"
proof -
  from assms(1) have inv: "queue_inv (activeEvtQueue (sm s))"
    and c: "q_contents (activeEvtQueue (sm s)) = acts"
    and n: "unat (mQSize (activeEvtQueue (sm s))) = na"
    by (simp_all add: in_config_def)
  have nf: "\<not> u_SmQFull (activeEvtQueue (sm s))"
    using assms(3) c n by (intro not_full_if_room) simp
  have e: "sm (SmEnqueueEvent i d s) =
      (sm s)\<lparr>activeEvtQueue := u_SmEnqueueEvent (activeEvtQueue (sm s)) i d\<rparr>"
    using assms(2) by (simp add: SmEnqueueEvent_def Let_def)
  show ?thesis
    using assms(1,2) enqueue_inv [OF inv, of i d] enqueue_contents [OF inv nf, of i d]
    by (simp add: in_config_def e)
qed

lemma dequeue_head:
  assumes "queue_inv q" and "q_contents q = e # rest"
  shows "\<exists>q'. u_SmDequeueEvent q = (Some e, q') \<and> queue_inv q' \<and> q_contents q' = rest \<and>
              mQSize q' = mQSize q"
proof -
  from assms(2) have "mQCount q \<noteq> 0" by (auto simp: q_contents_def)
  then obtain ev q' where d: "u_SmDequeueEvent q = (Some ev, q')"
    using dequeue_nonempty by blast
  from dequeue_contents [OF assms(1) d] assms(2) have "ev = e" "q_contents q' = rest" by simp_all
  with d dequeue_inv [OF assms(1) d] dequeue_size [OF d] show ?thesis by simp
qed

lemma cfg_dequeue_active:
  assumes "in_config na nd s cur (e # acts) defs"
  shows "\<exists>s1. u_SmDequeueActiveEvent s = (Some e, s1) \<and> in_config na nd s1 cur acts defs"
proof -
  from assms have inv: "queue_inv (activeEvtQueue (sm s))"
    and c: "q_contents (activeEvtQueue (sm s)) = e # acts"
    by (simp_all add: in_config_def)
  from dequeue_head [OF inv c] obtain q' where
    "u_SmDequeueEvent (activeEvtQueue (sm s)) = (Some e, q')" "queue_inv q'"
    "q_contents q' = acts" "mQSize q' = mQSize (activeEvtQueue (sm s))"
    by blast
  with assms show ?thesis
    by (simp add: u_SmDequeueActiveEvent_def in_config_def)
qed

lemma cfg_dequeue_active_empty:
  assumes "in_config na nd s cur [] defs"
  shows "u_SmDequeueActiveEvent s = (None, s)"
proof -
  from assms have "mQCount (activeEvtQueue (sm s)) = 0"
    by (simp add: in_config_def q_contents_def unat_eq_zero)
  then show ?thesis by (simp add: u_SmDequeueActiveEvent_def dequeue_empty)
qed

lemma cfg_dequeue_deferred:
  assumes "in_config na nd s cur acts (e # defs)"
  shows "\<exists>s1. u_SmDequeueDeferredEvent s = (Some e, s1) \<and> in_config na nd s1 cur acts defs"
proof -
  from assms have inv: "queue_inv (deferredEvtQueue (sm s))"
    and c: "q_contents (deferredEvtQueue (sm s)) = e # defs"
    by (simp_all add: in_config_def)
  from dequeue_head [OF inv c] obtain q' where
    "u_SmDequeueEvent (deferredEvtQueue (sm s)) = (Some e, q')" "queue_inv q'"
    "q_contents q' = defs" "mQSize q' = mQSize (deferredEvtQueue (sm s))"
    by blast
  with assms show ?thesis
    by (simp add: u_SmDequeueDeferredEvent_def in_config_def)
qed


lemma cfg_process_nomatch:
  assumes "in_config na nd s cur acts defs"
    and "\<forall>p \<in> set (mpNextStates (tbl cur)). tStateGuard.mID p \<noteq> mID e"
  shows "\<exists>s2. u_SmProcessEvent tbl e s = (False, s2) \<and> in_config na nd s2 cur acts defs"
proof -
  from assms(1) have c: "pCurrState (sm s) = cur" by (simp add: in_config_def)
  have "\<forall>p \<in> set (mpNextStates (tbl cur)). tStateGuard.mID p = mID e \<longrightarrow>
           mStInfo p \<noteq> pCurrState (sm s) \<and> (\<forall>w. \<not> fst (mEntry (tbl (mStInfo p)) e ACT_GUARD w))"
    using assms(2) by simp
  from scan_rejecting [OF this] obtain s2 where
    r: "scan_next_states tbl e (mpNextStates (tbl cur)) s = (False, s2)" and e: "sm s2 = sm s"
    by blast
  have "u_SmProcessEvent tbl e s = (False, s2)" using r by (simp add: u_SmProcessEvent_def c)
  with cfg_sm [OF e assms(1)] show ?thesis by blast
qed

lemma cfg_process_goto:
  assumes "in_config na nd s cur acts defs"
    and "mpNextStates (tbl cur) = pre @ g # post"
    and "\<forall>p \<in> set pre. tStateGuard.mID p = mID e \<longrightarrow>
           mStInfo p \<noteq> cur \<and> (\<forall>w. \<not> fst (mEntry (tbl (mStInfo p)) e ACT_GUARD w))"
    and "tStateGuard.mID g = mID e"
    and "\<forall>w. fst (mEntry (tbl (mStInfo g)) e ACT_GUARD w)"
  shows "\<exists>s2. u_SmProcessEvent tbl e s = (True, s2) \<and> in_config na nd s2 (mStInfo g) acts defs"
proof -
  from assms(1) have c: "pCurrState (sm s) = cur" by (simp add: in_config_def)
  have "\<forall>p \<in> set pre. tStateGuard.mID p = mID e \<longrightarrow>
           mStInfo p \<noteq> pCurrState (sm s) \<and> (\<forall>w. \<not> fst (mEntry (tbl (mStInfo p)) e ACT_GUARD w))"
    using assms(3) by (simp add: c)
  from scan_rejecting [OF this] obtain s1 where
    r: "scan_next_states tbl e pre s = (False, s1)" and sm1: "sm s1 = sm s"
    by blast
  obtain b s2 where x: "scan_next_states tbl e (g # post) s1 = (b, s2)" by force
  have p: "u_SmProcessEvent tbl e s = (b, s2)"
    using x by (simp add: u_SmProcessEvent_def c assms(2) scan_append [OF r])
  show ?thesis
  proof (cases "mStInfo g = pCurrState (sm s1)")
    case True
    from scan_internal [OF assms(4) True x] have b: "b" and e: "sm s2 = sm s" by (simp_all add: sm1)
    have "in_config na nd s2 (mStInfo g) acts defs"
      using cfg_sm [OF e assms(1)] True sm1 c by simp
    with p b show ?thesis by auto
  next
    case False
    have acc: "fst (mEntry (tbl (mStInfo g)) e ACT_GUARD (app s1))" using assms(5) by simp
    from scan_accept [OF assms(4) False acc x]
    have b: "b" and e: "sm s2 = (sm s)\<lparr>pCurrState := mStInfo g\<rparr>" by (simp_all add: sm1)
    have "in_config na nd s2 (mStInfo g) acts defs"
      using assms(1) by (simp add: in_config_def e)
    with p b show ?thesis by auto
  qed
qed

lemma cfg_defer:
  assumes "in_config na nd s cur acts defs"
    and "mID e \<in> set (mpDeferEvtIDs (tbl cur))" and "length defs < nd"
  shows "in_config na nd (u_SmDeferEvent tbl e s) cur acts (defs @ [e])"
proof -
  from assms(1) have inv: "queue_inv (deferredEvtQueue (sm s))"
    and c: "q_contents (deferredEvtQueue (sm s)) = defs"
    and n: "unat (mQSize (deferredEvtQueue (sm s))) = nd"
    and cur: "pCurrState (sm s) = cur"
    by (simp_all add: in_config_def)
  have nf: "\<not> u_SmQFull (deferredEvtQueue (sm s))"
    using assms(3) c n by (intro not_full_if_room) simp
  have ev: "\<lparr>mID = mID e, mData = mData e\<rparr> = e" by simp
  have d: "sm (u_SmDeferEvent tbl e s) =
      (sm s)\<lparr>deferredEvtQueue := u_SmEnqueueEvent (deferredEvtQueue (sm s)) (mID e) (mData e)\<rparr>"
    using assms(2) by (simp add: defer_sm cur)
  show ?thesis
    using assms(1) enqueue_inv [OF inv, of "mID e" "mData e"]
      enqueue_contents [OF inv nf, of "mID e" "mData e"]
    by (simp add: in_config_def d ev)
qed


text \<open>
  C2. State A has no entry for \<open>evtZ\<close>, defers \<open>evtZ\<close>, and has the entry
  \<open>(evtW, B)\<close>, B's guard accepting; the entries before it that match \<open>evtW\<close>, if any,
  are for other states whose guards reject. State B has the entry \<open>(evtZ, D)\<close>, D's guard
  accepting, under the same condition on the entries before it. The active queue has room
  for two events and the deferred queue for one. Then after \<^verbatim>\<open>SmInit\<close> in A, the enqueue
  of \<open>evtZ\<close>, the enqueue of \<open>evtW\<close> and one \<^verbatim>\<open>SmProcessEvents\<close>, the current state is
  D and both queues are empty. Whether B defers \<open>evtZ\<close> plays no part.
\<close>

theorem deferred_event_replayed_in_same_call:
  assumes edgesA: "mpNextStates (tbl A) = preA @ \<lparr>tStateGuard.mID = evtW, mStInfo = B\<rparr> # postA"
    and firstW: "\<forall>p \<in> set preA. tStateGuard.mID p = evtW \<longrightarrow>
           mStInfo p \<noteq> A \<and>
           (\<forall>w. \<not> fst (mEntry (tbl (mStInfo p)) \<lparr>mID = evtW, mData = dataW\<rparr> ACT_GUARD w))"
    and noZ: "\<forall>p \<in> set (mpNextStates (tbl A)). tStateGuard.mID p \<noteq> evtZ"
    and defersZ: "evtZ \<in> set (mpDeferEvtIDs (tbl A))"
    and guardB: "\<forall>w. fst (mEntry (tbl B) \<lparr>mID = evtW, mData = dataW\<rparr> ACT_GUARD w)"
    and edgesB: "mpNextStates (tbl B) = preB @ \<lparr>tStateGuard.mID = evtZ, mStInfo = D\<rparr> # postB"
    and firstZ: "\<forall>p \<in> set preB. tStateGuard.mID p = evtZ \<longrightarrow>
           mStInfo p \<noteq> B \<and>
           (\<forall>w. \<not> fst (mEntry (tbl (mStInfo p)) \<lparr>mID = evtZ, mData = dataZ\<rparr> ACT_GUARD w))"
    and guardD: "\<forall>w. fst (mEntry (tbl D) \<lparr>mID = evtZ, mData = dataZ\<rparr> ACT_GUARD w)"
    and roomA: "2 \<le> unat (mQSize (activeEvtQueue (sm s0)))"
      "unat (mQSize (activeEvtQueue (sm s0))) \<le> length (mpQData (activeEvtQueue (sm s0)))"
    and roomD: "1 \<le> unat (mQSize (deferredEvtQueue (sm s0)))"
      "unat (mQSize (deferredEvtQueue (sm s0))) \<le> length (mpQData (deferredEvtQueue (sm s0)))"
  shows "pCurrState (sm (SmProcessEvents tbl
           (SmEnqueueEvent evtW dataW (SmEnqueueEvent evtZ dataZ (SmInit tbl A s0))))) = D \<and>
         q_contents (activeEvtQueue (sm (SmProcessEvents tbl
           (SmEnqueueEvent evtW dataW (SmEnqueueEvent evtZ dataZ (SmInit tbl A s0)))))) = [] \<and>
         q_contents (deferredEvtQueue (sm (SmProcessEvents tbl
           (SmEnqueueEvent evtW dataW (SmEnqueueEvent evtZ dataZ (SmInit tbl A s0)))))) = []"
proof -
  let ?na = "unat (mQSize (activeEvtQueue (sm s0)))"
  let ?nd = "unat (mQSize (deferredEvtQueue (sm s0)))"
  let ?eZ = "\<lparr>mID = evtZ, mData = dataZ\<rparr>" and ?eW = "\<lparr>mID = evtW, mData = dataW\<rparr>"
  let ?s1 = "SmInit tbl A s0"
  let ?s2 = "SmEnqueueEvent evtZ dataZ ?s1"
  let ?s3 = "SmEnqueueEvent evtW dataW ?s2"
  have posA: "0 < mQSize (activeEvtQueue (sm s0))" and posD: "0 < mQSize (deferredEvtQueue (sm s0))"
    using roomA(1) roomD(1) by (simp_all add: word_less_nat_alt)
  from cfg_init [OF posA roomA(2) posD roomD(2), of tbl A]
  have c1: "in_config ?na ?nd ?s1 A [] []" and i1: "bInitFinished (sm ?s1)" by simp_all
  from cfg_enqueue [OF c1 i1, of evtZ dataZ] roomA(1)
  have c2: "in_config ?na ?nd ?s2 A [?eZ] []" and i2: "bInitFinished (sm ?s2)" by simp_all
  from cfg_enqueue [OF c2 i2, of evtW dataW] roomA(1)
  have c3: "in_config ?na ?nd ?s3 A [?eZ, ?eW] []" by simp
  \<comment> \<open>the active pass: evtZ is deferred\<close>
  from cfg_dequeue_active [OF c3] obtain s3a where
    d1: "u_SmDequeueActiveEvent ?s3 = (Some ?eZ, s3a)" and c3a: "in_config ?na ?nd s3a A [?eW] []"
    by blast
  have nz: "\<forall>p \<in> set (mpNextStates (tbl A)). tStateGuard.mID p \<noteq> mID ?eZ" using noZ by simp
  from cfg_process_nomatch [where tbl = tbl and e = ?eZ and cur = A, OF c3a nz] obtain s3b where
    p1: "u_SmProcessEvent tbl ?eZ s3a = (False, s3b)" and c3b: "in_config ?na ?nd s3b A [?eW] []"
    by blast
  have dz: "mID ?eZ \<in> set (mpDeferEvtIDs (tbl A))" using defersZ by simp
  have c3c: "in_config ?na ?nd (u_SmDeferEvent tbl ?eZ s3b) A [?eW] [?eZ]"
    using cfg_defer [where tbl = tbl and e = ?eZ and cur = A, OF c3b dz] roomD(1) by simp
  \<comment> \<open>the active pass: evtW takes A to B\<close>
  from cfg_dequeue_active [OF c3c] obtain s4a where
    d2: "u_SmDequeueActiveEvent (u_SmDeferEvent tbl ?eZ s3b) = (Some ?eW, s4a)"
    and c4a: "in_config ?na ?nd s4a A [] [?eZ]"
    by blast
  have fw: "\<forall>p \<in> set preA. tStateGuard.mID p = mID ?eW \<longrightarrow>
           mStInfo p \<noteq> A \<and> (\<forall>w. \<not> fst (mEntry (tbl (mStInfo p)) ?eW ACT_GUARD w))"
    using firstW by simp
  have gb: "\<forall>w. fst (mEntry (tbl (mStInfo \<lparr>tStateGuard.mID = evtW, mStInfo = B\<rparr>)) ?eW ACT_GUARD w)"
    using guardB by simp
  from cfg_process_goto [where tbl = tbl and e = ?eW and cur = A, OF c4a edgesA fw _ gb] obtain s4b where
    p2: "u_SmProcessEvent tbl ?eW s4a = (True, s4b)" and c4b: "in_config ?na ?nd s4b B [] [?eZ]"
    by auto
  let ?s4c = "XLOGD_DEBUG (Log_Consumed (INST_NAME s4b) (mID ?eW)
                             (mQCount (activeEvtQueue (sm s4b)))) s4b"
  have c4c: "in_config ?na ?nd ?s4c B [] [?eZ]" using c4b by simp
  have d3: "u_SmDequeueActiveEvent ?s4c = (None, ?s4c)" using c4c by (rule cfg_dequeue_active_empty)
  have "u_SmProcessActiveEvents_loop tbl 0 ?s3 =
          u_SmProcessActiveEvents_loop tbl 0 (u_SmDeferEvent tbl ?eZ s3b)"
    using d1 p1 by (rule active_loop_unused)
  also have "\<dots> = u_SmProcessActiveEvents_loop tbl (0 + 1) ?s4c"
    using d2 p2 by (rule active_loop_used)
  also have "\<dots> = (0 + 1, ?s4c)" using d3 by (rule active_loop_None)
  finally have act: "u_SmProcessActiveEvents tbl ?s3 = (True, ?s4c)"
    by (simp add: u_SmProcessActiveEvents_def)
  \<comment> \<open>the deferred replay: evtZ takes B to D\<close>
  have cnt: "unat (mQCount (deferredEvtQueue (sm ?s4c))) = 1"
    using c4c length_q_contents [of "deferredEvtQueue (sm ?s4c)"] by (simp add: in_config_def)
  then have ucnt: "uint (mQCount (deferredEvtQueue (sm ?s4c))) = 1"
    and ne: "0 \<noteq> mQCount (deferredEvtQueue (sm ?s4c))"
    by (auto simp: uint_nat)
  from cfg_dequeue_deferred [OF c4c] obtain s5a where
    d4: "u_SmDequeueDeferredEvent ?s4c = (Some ?eZ, s5a)" and c5a: "in_config ?na ?nd s5a B [] []"
    by blast
  have fz: "\<forall>p \<in> set preB. tStateGuard.mID p = mID ?eZ \<longrightarrow>
           mStInfo p \<noteq> B \<and> (\<forall>w. \<not> fst (mEntry (tbl (mStInfo p)) ?eZ ACT_GUARD w))"
    using firstZ by simp
  have gd: "\<forall>w. fst (mEntry (tbl (mStInfo \<lparr>tStateGuard.mID = evtZ, mStInfo = D\<rparr>)) ?eZ ACT_GUARD w)"
    using guardD by simp
  from cfg_process_goto [where tbl = tbl and e = ?eZ and cur = B, OF c5a edgesB fz _ gd] obtain s5b where
    p3: "u_SmProcessEvent tbl ?eZ s5a = (True, s5b)" and c5b: "in_config ?na ?nd s5b D [] []"
    by auto
  have "u_SmProcessDeferredEvents_loop tbl 1 0 0 ?s4c = (1, 1, s5b)"
    using deferred_loop_Some [OF d4 p3, of 1 0 0] by simp
  with ucnt have def: "u_SmProcessDeferredEvents tbl ?s4c = (True, s5b)"
    by (simp add: u_SmProcessDeferredEvents_def)
  \<comment> \<open>the engine returns the machine of the replay\<close>
  have "u_SmEngine_loop tbl ?s3 = s5b"
    using engine_loop_shape [OF act] ne def by simp
  then have "sm (SmProcessEvents tbl ?s3) = sm s5b"
    by (simp add: SmProcessEvents_def u_SmEngine_def Let_def)
  with c5b show ?thesis by (simp add: in_config_def)
qed


theorem deferred_event_replayed_in_same_call_witness:
  "mpNextStates (ex_tbl 0) =
     [\<lparr>tStateGuard.mID = 2, mStInfo = 4\<rparr>, \<lparr>tStateGuard.mID = 2, mStInfo = 2\<rparr>] @
     \<lparr>tStateGuard.mID = 1, mStInfo = 1\<rparr> #
     [\<lparr>tStateGuard.mID = 5, mStInfo = 4\<rparr>, \<lparr>tStateGuard.mID = 5, mStInfo = 0\<rparr>] \<and>
   4 \<in> set (mpDeferEvtIDs (ex_tbl 0)) \<and>
   mpNextStates (ex_tbl 1) = [] @ \<lparr>tStateGuard.mID = 4, mStInfo = 2\<rparr> # [] \<and>
   2 \<le> unat (mQSize (activeEvtQueue (sm (ex_machine 4)))) \<and>
   1 \<le> unat (mQSize (deferredEvtQueue (sm (ex_machine 4)))) \<and>
   pCurrState (sm (SmProcessEvents ex_tbl
     (SmEnqueueEvent 1 11 (SmEnqueueEvent 4 44 (SmInit ex_tbl 0 (ex_machine 4)))))) = 2 \<and>
   q_contents (deferredEvtQueue (sm (SmProcessEvents ex_tbl
     (SmEnqueueEvent 1 11 (SmEnqueueEvent 4 44 (SmInit ex_tbl 0 (ex_machine 4))))))) = []"
proof -
  let ?preA = "[\<lparr>tStateGuard.mID = 2, mStInfo = 4::nat\<rparr>, \<lparr>tStateGuard.mID = 2, mStInfo = 2\<rparr>]"
  let ?postA = "[\<lparr>tStateGuard.mID = 5, mStInfo = 4::nat\<rparr>, \<lparr>tStateGuard.mID = 5, mStInfo = 0\<rparr>]"
  have eA: "mpNextStates (ex_tbl 0) = ?preA @ \<lparr>tStateGuard.mID = 1, mStInfo = 1\<rparr> # ?postA"
    by (simp add: ex_tbl_def)
  have fW: "\<forall>p \<in> set ?preA. tStateGuard.mID p = 1 \<longrightarrow>
           mStInfo p \<noteq> 0 \<and>
           (\<forall>w. \<not> fst (mEntry (ex_tbl (mStInfo p)) \<lparr>mID = 1, mData = 11\<rparr> ACT_GUARD w))"
    by simp
  have nZ: "\<forall>p \<in> set (mpNextStates (ex_tbl 0)). tStateGuard.mID p \<noteq> 4"
    by (simp add: ex_tbl_def)
  have dZ: "4 \<in> set (mpDeferEvtIDs (ex_tbl 0))" by (simp add: ex_tbl_def)
  have gB: "\<forall>w. fst (mEntry (ex_tbl 1) \<lparr>mID = 1, mData = 11\<rparr> ACT_GUARD w)"
    by (simp add: ex_tbl_def ex_accept_def)
  have eB: "mpNextStates (ex_tbl 1) = [] @ \<lparr>tStateGuard.mID = 4, mStInfo = 2\<rparr> # []"
    by (simp add: ex_tbl_def)
  have fZ: "\<forall>p \<in> set ([] :: nat tStateGuard list). tStateGuard.mID p = 4 \<longrightarrow>
           mStInfo p \<noteq> 1 \<and>
           (\<forall>w. \<not> fst (mEntry (ex_tbl (mStInfo p)) \<lparr>mID = 4, mData = 44\<rparr> ACT_GUARD w))"
    by simp
  have gD: "\<forall>w. fst (mEntry (ex_tbl 2) \<lparr>mID = 4, mData = 44\<rparr> ACT_GUARD w)"
    by (simp add: ex_tbl_def ex_accept_def)
  have rA: "2 \<le> unat (mQSize (activeEvtQueue (sm (ex_machine 4))))"
    "unat (mQSize (activeEvtQueue (sm (ex_machine 4))))
       \<le> length (mpQData (activeEvtQueue (sm (ex_machine 4))))"
    by (simp_all add: ex_machine_def)
  have rD: "1 \<le> unat (mQSize (deferredEvtQueue (sm (ex_machine 4))))"
    "unat (mQSize (deferredEvtQueue (sm (ex_machine 4))))
       \<le> length (mpQData (deferredEvtQueue (sm (ex_machine 4))))"
    by (simp_all add: ex_machine_def)
  from deferred_event_replayed_in_same_call [OF eA fW nZ dZ gB eB fZ gD rA rD] eA dZ eB rA(1) rD(1)
  show ?thesis by blast
qed

end
